theory Spec2Isabelle
  imports Main "HOL-Library.Word" "HOL-Library.FSet"
begin

section \<open>Data model of the consensus node (raft.go)\<close>

text \<open>
  Go's \<open>uint64\<close> is a 64-bit word whose arithmetic wraps. \<open>votedFor\<close> is an
  \<open>int64\<close>; the conversion \<open>int64(x)\<close> of a \<open>uint64\<close> keeps the bits, so it is
  modelled by the same word type and the sentinel \<open>-1\<close> is the all-ones word.
  \<open>uint64(len(s))\<close> is \<open>of_nat (length s)\<close>; a Go slice has fewer than \<open>2 ^ 63\<close>
  elements (its length is an \<open>int\<close>).

  A Go slice is a window on a backing array, and a slice expression \<open>s[a:b]\<close> is checked
  against the capacity of \<open>s\<close>, not against its length. The node's log is therefore two
  fields: \<open>log\<close>, the elements of \<open>node.log\<close>, and \<open>logSpare\<close>, the cells of its backing
  array beyond the length, so that \<open>cap(node.log) = length log + length logSpare\<close>.
\<close>

type_synonym u64 = "64 word"
type_synonym i64 = "64 word"
type_synonym bytes = "8 word list"
type_synonym time = nat

datatype NodeState = Follower | Candidate | Leader | Dead

text \<open>
  \<open>Command\<close> is \<open>interface{}\<close> in the source. The handlers switch on the dynamic types
  \<open>Read\<close>, \<open>AddServer\<close> and \<open>RemoveServer\<close>; \<open>Write\<close> is the application command of
  the repository, \<open>Opaque\<close> stands for a value of any other type and \<open>NilCommand\<close> for
  the \<open>nil\<close> interface, the command of a zero \<open>LogEntry\<close>.
\<close>

text \<open>
  Modelled from the spec: the type \<open>RemoveServer\<close> is used by raft.go
  (\<open>RemoveServer{ServerId: args.ServerId}\<close>, \<open>v.ServerId\<close> compared with the \<open>uint64\<close>
  node id) but its declaration is not among the sources; it is a distinct variant of the
  membership change, carrying one server id.
\<close>

datatype Command =
    Write string i64
  | Read string
  | AddServer u64 string
  | RemoveServer u64
  | Opaque nat
  | NilCommand

record LogEntry =
  Command :: Command
  Term :: u64

record CommitEntry =
  Command_c :: Command
  Term_c :: u64
  Index_c :: u64

text \<open>
  Modelled from the spec: the type \<open>Database\<close> (\<open>Get\<close>, \<open>Set\<close>, \<open>HasData\<close>) is not among
  the sources; it is the byte-keyed store of the persistence adapter, a flat map from names
  to byte strings.
\<close>

type_synonym Database = "string \<rightharpoonup> bytes"

text \<open>
  Modelled from the spec: the type \<open>Set\<close> of the peer list is not among the sources; it is
  a finite set of server identifiers with a membership test, a size and removal. Its field
  \<open>peerSet\<close> is a \<open>map[uint64]struct{}\<close> that the node iterates; wherever it does, the
  order of iteration does not change the result.
\<close>

type_synonym Set = "u64 fset"

abbreviation Exists :: "Set \<Rightarrow> u64 \<Rightarrow> bool" where
  "Exists s x \<equiv> x |\<in>| s"

abbreviation Size :: "Set \<Rightarrow> nat" where
  "Size s \<equiv> fcard s"

abbreviation Remove :: "Set \<Rightarrow> u64 \<Rightarrow> Set" where
  "Remove s x \<equiv> s |-| {|x|}"

datatype error =
    KeyNotFound string
  | DecodeError
  | CannotRemove u64 u64
  | IndexOutOfRange

text \<open>
  \<open>encoding/gob\<close> is an external library: the encoders of the three persisted fields and the
  effect of decoding a stored value into a zero-initialised \<open>int\<close> are parameters.
\<close>

record Gob =
  encTerm :: "u64 \<Rightarrow> bytes"
  encVote :: "i64 \<Rightarrow> bytes"
  encLog :: "LogEntry list \<Rightarrow> bytes"
  decInt :: "bytes \<Rightarrow> i64 \<times> error option"

text \<open>
  \<open>growslice\<close> is not a field of the Go struct but the policy of the Go runtime the node runs
  on: the capacity it gives the new backing array when \<open>append\<close> has to reallocate, from
  the old capacity and the length required. The language promises only that the new array
  is large enough, so the model uses the larger of the two numbers.
\<close>

record Node =
  node_id :: u64
  peerList :: Set
  db :: Database
  currentTerm :: u64
  votedFor :: i64
  log :: "LogEntry list"
  logSpare :: "LogEntry list"
  growslice :: "nat \<Rightarrow> nat \<Rightarrow> nat"
  commitLength :: u64
  lastApplied :: u64
  state :: NodeState
  electionResetEvent :: time
  nextIndex :: "u64 \<rightharpoonup> u64"
  matchedIndex :: "u64 \<rightharpoonup> u64"

record RequestVoteArgs =
  Term_rv :: u64
  CandidateId :: u64
  LastLogIndex_rv :: u64
  LastLogTerm_rv :: u64

record RequestVoteReply =
  Term_rvr :: u64
  VoteGranted :: bool

record AppendEntriesArgs =
  Term_ae :: u64
  LeaderId :: u64
  LastLogIndex :: u64
  LastLogTerm :: u64
  Entries :: "LogEntry list"
  LeaderCommit :: u64

record AppendEntriesReply =
  Term_aer :: u64
  Success :: bool
  RecoveryIndex :: u64
  RecoveryTerm :: u64



text \<open>Reading a Go map at a missing key gives the zero value.\<close>

definition lookup0 :: "(u64 \<rightharpoonup> u64) \<Rightarrow> u64 \<Rightarrow> u64" where
  "lookup0 m k = (case m k of None \<Rightarrow> 0 | Some v \<Rightarrow> v)"

section \<open>Operations\<close>

subsection \<open>Persistence\<close>

definition persistToStorage :: "Gob \<Rightarrow> Node \<Rightarrow> Node" where
  "persistToStorage g n =
     n\<lparr>db := (db n)(''currentTerm'' \<mapsto> encTerm g (currentTerm n),
                     ''votedFor'' \<mapsto> encVote g (votedFor n),
                     ''log'' \<mapsto> encLog g (log n))\<rparr>"

definition readFromStorage :: "Gob \<Rightarrow> Node \<Rightarrow> string \<Rightarrow> i64 \<times> error option" where
  "readFromStorage g n key =
     (case db n key of
        Some v \<Rightarrow> decInt g v
      | None \<Rightarrow> (0, Some (KeyNotFound key)))"

subsection \<open>Role changes\<close>

text \<open>
  \<open>becomeFollower\<close> and \<open>startElection\<close> also start goroutines (the election timer, the
  vote requests); the definitions are the assignments each makes under the mutex.
  \<open>time.Now()\<close> is the parameter \<open>now\<close>; a handler that reads the clock more than once
  is given one reading.
\<close>

definition becomeFollower :: "time \<Rightarrow> u64 \<Rightarrow> Node \<Rightarrow> Node" where
  "becomeFollower now newTerm n =
     n\<lparr>state := Follower, currentTerm := newTerm, votedFor := - 1,
       electionResetEvent := now\<rparr>"

definition startElection :: "time \<Rightarrow> Node \<Rightarrow> Node" where
  "startElection now n =
     n\<lparr>state := Candidate, currentTerm := currentTerm n + 1,
       electionResetEvent := now, votedFor := node_id n\<rparr>"

definition becomeLeader :: "Node \<Rightarrow> Node" where
  "becomeLeader n =
     n\<lparr>state := Leader,
       nextIndex := (\<lambda>p. if Exists (peerList n) p then Some (of_nat (length (log n)) + 1)
                          else nextIndex n p),
       matchedIndex := (\<lambda>p. if Exists (peerList n) p then Some 0 else matchedIndex n p)\<rparr>"

definition lastLogIndexAndTerm :: "Node \<Rightarrow> u64 \<times> u64" where
  "lastLogIndexAndTerm n =
     (if length (log n) > 0
      then (of_nat (length (log n) - 1), Term (log n ! (length (log n) - 1)))
      else (0, 0))"

subsection \<open>RequestVote\<close>

text \<open>
  An RPC handler receives a pointer to the reply and fills it in; the model takes the reply
  and returns it updated. When the handler returns early the reply is the one it was given.
\<close>

definition RequestVote ::
  "Gob \<Rightarrow> time \<Rightarrow> Node \<Rightarrow> RequestVoteArgs \<Rightarrow> RequestVoteReply \<Rightarrow> Node \<times> RequestVoteReply" where
  "RequestVote g now n args reply =
     (if state n = Dead \<or> \<not> Exists (peerList n) (CandidateId args) then (n, reply)
      else
        let (lastLogIndex, lastLogTerm) = lastLogIndexAndTerm n;
            n1 = (if currentTerm n < Term_rv args then becomeFollower now (Term_rv args) n else n);
            (n2, r2) =
              (if Term_rv args = currentTerm n1 \<and>
                  (votedFor n1 = - 1 \<or> votedFor n1 = CandidateId args) \<and>
                  (lastLogTerm < LastLogTerm_rv args \<or>
                   (LastLogTerm_rv args = lastLogTerm \<and> lastLogIndex \<le> LastLogIndex_rv args))
               then (n1\<lparr>votedFor := CandidateId args, electionResetEvent := now\<rparr>,
                     reply\<lparr>VoteGranted := True\<rparr>)
               else (n1, reply\<lparr>VoteGranted := False\<rparr>))
        in (persistToStorage g n2, r2\<lparr>Term_rvr := currentTerm n2\<rparr>))"

subsection \<open>AppendEntries\<close>

text \<open>
  The loop over the received entries: an \<open>AddServer\<close> entry makes the transport connect to
  the new server (an effect on the server object, outside the node's fields); a
  \<open>RemoveServer\<close> entry removes the id from the peer set unless it is the node's own.
\<close>

definition applyMembership :: "u64 \<Rightarrow> LogEntry \<Rightarrow> Set \<Rightarrow> Set" where
  "applyMembership nid entry ps =
     (case Command entry of
        RemoveServer sid \<Rightarrow> (if nid \<noteq> sid \<and> Exists ps sid then Remove ps sid else ps)
      | _ \<Rightarrow> ps)"

text \<open>
  The backwards scan \<open>for i := args.LastLogIndex - 1; i > 0; i--\<close>: the counter is the
  argument \<open>Suc k\<close>, the entry read is \<open>log[i-1]\<close>, and falling out of the loop leaves the
  default \<open>1\<close>.
\<close>

fun conflictScan :: "LogEntry list \<Rightarrow> u64 \<Rightarrow> nat \<Rightarrow> u64" where
  "conflictScan lg rt 0 = 1"
| "conflictScan lg rt (Suc k) =
     (if Term (lg ! k) \<noteq> rt then of_nat (Suc k) + 1 else conflictScan lg rt k)"

definition conflictHints :: "LogEntry list \<Rightarrow> u64 \<Rightarrow> u64 \<times> u64" where
  "conflictHints lg lastLogIndex =
     (if of_nat (length lg) < lastLogIndex then (of_nat (length lg) + 1, 0)
      else
        let rt = Term (lg ! unat (lastLogIndex - 1))
        in (conflictScan lg rt (unat (lastLogIndex - 1)), rt))"

text \<open>
  \<open>append(s[:k], es...)\<close> for a slice \<open>s\<close> with elements \<open>lg\<close> and spare cells \<open>spare\<close>,
  \<open>k \<le> len(s)\<close>. Its elements are \<open>take k lg @ es\<close>. When they fit the capacity they are
  written into the same array, and the cells behind them stay what they were: the spare cells
  are the rest of the old array, old elements from position \<open>k + len(es)\<close> on included.
  Otherwise a new array is allocated and its spare cells are zero values.
\<close>

definition zeroLogEntry :: LogEntry where
  "zeroLogEntry = \<lparr>Command = NilCommand, Term = 0\<rparr>"

definition spare_after_append ::
  "(nat \<Rightarrow> nat \<Rightarrow> nat) \<Rightarrow> LogEntry list \<Rightarrow> LogEntry list \<Rightarrow> nat \<Rightarrow> LogEntry list
     \<Rightarrow> LogEntry list" where
  "spare_after_append grow lg spare k es =
     (let array = lg @ spare; need = k + length es in
      if need \<le> length array then drop need array
      else replicate (max (grow (length array) need) need - need) zeroLogEntry)"

text \<open>
  The body of \<open>if args.Term == node.currentTerm\<close>. The source computes the new commit length
  as \<open>uint64(math.Min(float64(args.LeaderCommit), float64(len(node.log))))\<close>; the length of
  a slice is far below \<open>2 ^ 53\<close>, where the conversions are exact and monotone, so this is
  the minimum of the two integers.
\<close>

definition appendAtTerm ::
  "time \<Rightarrow> Node \<Rightarrow> AppendEntriesArgs \<Rightarrow> AppendEntriesReply \<Rightarrow> Node \<times> AppendEntriesReply" where
  "appendAtTerm now n args reply =
     (let n1 = (if state n \<noteq> Follower then becomeFollower now (Term_ae args) n else n);
          n2 = n1\<lparr>electionResetEvent := now\<rparr>
      in
        if LastLogIndex args = 0 \<or>
           (LastLogIndex args \<le> of_nat (length (log n2)) \<and>
            LastLogTerm args = Term (log n2 ! unat (LastLogIndex args - 1)))
        then
          let n3 = n2\<lparr>log := take (unat (LastLogIndex args)) (log n2) @ Entries args,
                     logSpare := spare_after_append (growslice n2) (log n2) (logSpare n2)
                                   (unat (LastLogIndex args)) (Entries args)\<rparr>;
              n4 = n3\<lparr>peerList := fold (applyMembership (node_id n3)) (Entries args) (peerList n3)\<rparr>;
              n5 = (if commitLength n4 < LeaderCommit args
                    then n4\<lparr>commitLength := min (LeaderCommit args) (of_nat (length (log n4)))\<rparr>
                    else n4)
          in (n5, reply\<lparr>Success := True\<rparr>)
        else
          let (ri, rt) = conflictHints (log n2) (LastLogIndex args)
          in (n2, reply\<lparr>RecoveryIndex := ri, RecoveryTerm := rt\<rparr>))"

definition AppendEntries ::
  "Gob \<Rightarrow> time \<Rightarrow> Node \<Rightarrow> AppendEntriesArgs \<Rightarrow> AppendEntriesReply \<Rightarrow> Node \<times> AppendEntriesReply" where
  "AppendEntries g now n args reply =
     (if state n = Dead \<or> \<not> Exists (peerList n) (LeaderId args) then (n, reply)
      else
        let n1 = (if currentTerm n < Term_ae args then becomeFollower now (Term_ae args) n else n);
            r1 = reply\<lparr>Success := False\<rparr>;
            (n2, r2) = (if Term_ae args = currentTerm n1 then appendAtTerm now n1 args r1
                        else (n1, r1))
        in (persistToStorage g n2, r2\<lparr>Term_aer := currentTerm n2\<rparr>))"

subsection \<open>The leader's handling of an AppendEntries reply, and commit advancement\<close>

text \<open>
  Both commit loops of \<open>leaderSendAppendEntries\<close> are
  \<open>for i := node.commitLength + 1; i <= uint64(len(node.log)); i++\<close> with a body that sets
  \<open>node.commitLength = i\<close> when a test on \<open>i\<close> passes; the test reads nothing the body
  writes. \<open>raiseCommit ok len i c\<close> is the loop from counter \<open>i\<close> with commit length \<open>c\<close>.
  The counter stays at most \<open>len + 1\<close>, below \<open>2 ^ 63\<close>, so it is a natural number here.
\<close>

function raiseCommit :: "(nat \<Rightarrow> bool) \<Rightarrow> nat \<Rightarrow> nat \<Rightarrow> u64 \<Rightarrow> u64" where
  "raiseCommit ok len i c =
     (if i \<le> len then raiseCommit ok len (Suc i) (if ok i then of_nat i else c) else c)"
  by pat_completeness auto
termination
  by (relation "measure (\<lambda>(ok, len, i, c). Suc len - i)") auto

declare raiseCommit.simps [simp del]

text \<open>
  \<open>matchCount\<close> starts at \<open>1\<close> and is incremented once for every peer \<open>p\<close> of the peer
  set with \<open>matchedIndex[p] >= i\<close>.
\<close>

definition matchCount :: "Node \<Rightarrow> u64 \<Rightarrow> nat" where
  "matchCount n i = 1 + Size (ffilter (\<lambda>p. i \<le> lookup0 (matchedIndex n) p) (peerList n))"

definition quorumAt :: "Node \<Rightarrow> nat \<Rightarrow> bool" where
  "quorumAt n i \<longleftrightarrow>
     Term (log n ! (i - 1)) = currentTerm n \<and>
     matchCount n (of_nat i) * 2 > Size (peerList n) + 1"

text \<open>
  When \<open>commitLength + 1\<close> wraps to \<open>0\<close> the first iteration reads \<open>node.log[i-1]\<close> at index
  \<open>2 ^ 64 - 1\<close>, which panics.
\<close>

definition advanceCommit :: "Node \<Rightarrow> error + Node" where
  "advanceCommit n =
     (if commitLength n + 1 = 0 then Inl IndexOutOfRange
      else Inr (n\<lparr>commitLength :=
                  raiseCommit (quorumAt n) (length (log n)) (unat (commitLength n + 1))
                    (commitLength n)\<rparr>))"

text \<open>
  The search \<open>for i := uint64(len(node.log)); i > 0; i--\<close> for the last index whose term is
  the follower's \<open>RecoveryTerm\<close>; \<open>0\<close> when there is none.
\<close>

fun lastIndexOfTerm :: "LogEntry list \<Rightarrow> u64 \<Rightarrow> nat \<Rightarrow> u64" where
  "lastIndexOfTerm lg rt 0 = 0"
| "lastIndexOfTerm lg rt (Suc k) =
     (if Term (lg ! k) = rt then of_nat (Suc k) else lastIndexOfTerm lg rt k)"

text \<open>
  The code run under the mutex when the reply of peer \<open>peer\<close> arrives. \<open>leadershipTerm\<close>,
  \<open>nextIndexSaved\<close> and \<open>entries\<close> are the values saved when the request was sent.
\<close>

definition leaderSendAppendEntries_reply ::
  "time \<Rightarrow> Node \<Rightarrow> u64 \<Rightarrow> u64 \<Rightarrow> u64 \<Rightarrow> LogEntry list \<Rightarrow> AppendEntriesReply \<Rightarrow> error + Node" where
  "leaderSendAppendEntries_reply now n peer leadershipTerm nextIndexSaved entries reply =
     (if leadershipTerm < Term_aer reply then Inr (becomeFollower now (Term_aer reply) n)
      else if state n = Leader \<and> leadershipTerm = Term_aer reply then
        (if Success reply then
           let n1 = n\<lparr>nextIndex := (nextIndex n)(peer \<mapsto> nextIndexSaved + of_nat (length entries))\<rparr>;
               n2 = n1\<lparr>matchedIndex := (matchedIndex n1)(peer \<mapsto> lookup0 (nextIndex n1) peer - 1)\<rparr>
           in advanceCommit n2
         else if RecoveryTerm reply = 0 then
           Inr (n\<lparr>nextIndex := (nextIndex n)(peer \<mapsto> RecoveryIndex reply)\<rparr>)
         else
           let lastLogIndex = lastIndexOfTerm (log n) (RecoveryTerm reply) (length (log n))
           in if lastLogIndex = 0
              then Inr (n\<lparr>nextIndex := (nextIndex n)(peer \<mapsto> RecoveryIndex reply)\<rparr>)
              else Inr (n\<lparr>nextIndex := (nextIndex n)(peer \<mapsto> lastLogIndex + 1)\<rparr>))
      else Inr n)"

text \<open>The first goroutine of \<open>leaderSendAppendEntries\<close>: the cluster without peers.\<close>

definition leaderSendAppendEntries_single :: "Node \<Rightarrow> Node" where
  "leaderSendAppendEntries_single n =
     (if Size (peerList n) = 0 \<and> commitLength n < of_nat (length (log n))
      then n\<lparr>commitLength :=
               raiseCommit (\<lambda>i. Term (log n ! (i - 1)) = currentTerm n) (length (log n))
                 (unat (commitLength n + 1)) (commitLength n)\<rparr>
      else n)"

subsection \<open>The commit dispatcher\<close>

text \<open>
  One iteration of \<open>for range node.newCommitReady\<close>. The second loop sends one record per
  pending entry on the commit channel; the model returns the records in the order sent.
  The slice expression \<open>node.log[node.lastApplied:node.commitLength]\<close> is evaluated only
  when \<open>lastApplied < commitLength\<close>; it panics when \<open>commitLength\<close> exceeds the capacity,
  and otherwise takes the cells of the backing array from \<open>lastApplied\<close> to
  \<open>commitLength\<close>, cells beyond the length of the log included.
\<close>

fun deliver :: "u64 \<Rightarrow> u64 \<Rightarrow> nat \<Rightarrow> LogEntry list \<Rightarrow> CommitEntry list" where
  "deliver lastAppliedSaved currentTermSaved i [] = []"
| "deliver lastAppliedSaved currentTermSaved i (entry # es) =
     \<lparr>Command_c = Command entry, Term_c = currentTermSaved,
      Index_c = lastAppliedSaved + of_nat i + 1\<rparr>
     # deliver lastAppliedSaved currentTermSaved (Suc i) es"

definition sendCommit :: "Node \<Rightarrow> error + (Node \<times> CommitEntry list)" where
  "sendCommit n =
     (if lastApplied n < commitLength n then
        (if unat (commitLength n) \<le> length (log n) + length (logSpare n) then
           Inr (n\<lparr>lastApplied := commitLength n\<rparr>,
                deliver (lastApplied n) (currentTerm n) 0
                  (drop (unat (lastApplied n))
                     (take (unat (commitLength n)) (log n @ logSpare n))))
         else Inl IndexOutOfRange)
      else Inr (n, []))"

subsection \<open>Membership RPC and command submission\<close>


definition appendCommand :: "Node \<Rightarrow> Command \<Rightarrow> Node" where
  "appendCommand n command =
     n\<lparr>log := log n @ [\<lparr>Command = command, Term = currentTerm n\<rparr>],
       logSpare := spare_after_append (growslice n) (log n) (logSpare n) (length (log n))
                     [\<lparr>Command = command, Term = currentTerm n\<rparr>]\<rparr>"

text \<open>The result is the triple \<open>(bool, interface{}, error)\<close>, with \<open>None\<close> for \<open>nil\<close>.\<close>

definition newLogEntry ::
  "Gob \<Rightarrow> Node \<Rightarrow> Command \<Rightarrow> Node \<times> bool \<times> i64 option \<times> error option" where
  "newLogEntry g n command =
     (if state n = Leader then
        (case command of
           Read key \<Rightarrow>
             (let (v, readErr) = readFromStorage g n key in (n, True, Some v, readErr))
         | AddServer sid addr \<Rightarrow>
             (persistToStorage g (appendCommand n command), True, None, None)
         | RemoveServer sid \<Rightarrow>
             (if \<not> Exists (peerList n) sid \<or> node_id n = sid
              then (n, False, None, Some (CannotRemove sid (node_id n)))
              else (persistToStorage g
                      ((appendCommand n command)\<lparr>peerList := Remove (peerList n) sid\<rparr>),
                    True, None, None))
         | _ \<Rightarrow> (persistToStorage g (appendCommand n command), True, None, None))
      else
        (case command of
           Read key \<Rightarrow>
             (let (v, readErr) = readFromStorage g n key in (n, True, Some v, readErr))
         | _ \<Rightarrow> (n, False, None, None)))"

text \<open>
  The dispatcher over its lifetime. \<open>lastApplied\<close> is written by \<open>sendCommit\<close> alone; the
  other fields are whatever the handlers have made of them when the dispatcher wakes up.
  \<open>sendCommitRun la ss\<close> runs one iteration per wake-up, on the node states \<open>ss\<close> found at
  the successive wake-ups, starting with \<open>lastApplied = la\<close>. It returns every record sent,
  in order, the last value of \<open>lastApplied\<close>, and the panic that ended the run, if one did;
  the records sent before a panic are part of the result.
\<close>

fun sendCommitRun :: "u64 \<Rightarrow> Node list \<Rightarrow> CommitEntry list \<times> u64 \<times> error option" where
  "sendCommitRun la [] = ([], la, None)"
| "sendCommitRun la (s # ss) =
     (case sendCommit (s\<lparr>lastApplied := la\<rparr>) of
        Inl e \<Rightarrow> ([], la, Some e)
      | Inr (n', out) \<Rightarrow>
          (case sendCommitRun (lastApplied n') ss of
             (rest, la', e) \<Rightarrow> (out @ rest, la', e)))"

subsection \<open>Example states and messages\<close>

definition exGob :: Gob where
  "exGob = \<lparr>encTerm = (\<lambda>t. []), encVote = (\<lambda>v. []), encLog = (\<lambda>l. []),
            decInt = (\<lambda>b. case b of [] \<Rightarrow> (0, Some DecodeError) | x # xs \<Rightarrow> (ucast x, None))\<rparr>"

definition exFollower :: Node where
  "exFollower =
     \<lparr>node_id = 1, peerList = {|2, 3|}, db = Map.empty, currentTerm = 1, votedFor = - 1,
      log = [\<lparr>Command = Write ''x'' 1, Term = 1\<rparr>, \<lparr>Command = Write ''y'' 2, Term = 1\<rparr>],
      logSpare = [], growslice = (\<lambda>c m. 2 * m),
      commitLength = 2, lastApplied = 2, state = Follower, electionResetEvent = 0,
      nextIndex = Map.empty, matchedIndex = Map.empty\<rparr>"

definition exDiverged :: Node where
  "exDiverged =
     \<lparr>node_id = 1, peerList = {|2, 3|}, db = Map.empty, currentTerm = 3, votedFor = - 1,
      log = [\<lparr>Command = Write ''x'' 1, Term = 1\<rparr>, \<lparr>Command = Write ''y'' 2, Term = 2\<rparr>,
             \<lparr>Command = Write ''z'' 3, Term = 2\<rparr>],
      logSpare = [], growslice = (\<lambda>c m. 2 * m),
      commitLength = 1, lastApplied = 1, state = Follower, electionResetEvent = 0,
      nextIndex = Map.empty, matchedIndex = Map.empty\<rparr>"

definition exLeader :: Node where
  "exLeader =
     \<lparr>node_id = 1, peerList = {|2, 3|}, db = Map.empty, currentTerm = 2, votedFor = 1,
      log = [\<lparr>Command = Write ''x'' 1, Term = 1\<rparr>, \<lparr>Command = Write ''y'' 2, Term = 2\<rparr>,
             \<lparr>Command = Write ''z'' 3, Term = 2\<rparr>],
      logSpare = [], growslice = (\<lambda>c m. 2 * m),
      commitLength = 1, lastApplied = 1, state = Leader, electionResetEvent = 0,
      nextIndex = [2 \<mapsto> 2, 3 \<mapsto> 2], matchedIndex = [2 \<mapsto> 1, 3 \<mapsto> 1]\<rparr>"

definition exSolo :: Node where
  "exSolo =
     \<lparr>node_id = 1, peerList = {||}, db = Map.empty, currentTerm = 2, votedFor = 1,
      log = [\<lparr>Command = Write ''x'' 1, Term = 1\<rparr>, \<lparr>Command = Write ''y'' 2, Term = 2\<rparr>],
      logSpare = [], growslice = (\<lambda>c m. 2 * m),
      commitLength = 0, lastApplied = 0, state = Leader, electionResetEvent = 0,
      nextIndex = Map.empty, matchedIndex = Map.empty\<rparr>"

definition exStale :: Node where
  "exStale =
     \<lparr>node_id = 1, peerList = {|2, 3|}, db = Map.empty, currentTerm = 2, votedFor = - 1,
      log = [\<lparr>Command = Write ''x'' 7, Term = 1\<rparr>],
      logSpare = [], growslice = (\<lambda>c m. 2 * m),
      commitLength = 1, lastApplied = 0, state = Follower, electionResetEvent = 0,
      nextIndex = Map.empty, matchedIndex = Map.empty\<rparr>"

definition exAppend :: AppendEntriesArgs where
  "exAppend = \<lparr>Term_ae = 1, LeaderId = 2, LastLogIndex = 1, LastLogTerm = 1,
               Entries = [\<lparr>Command = Write ''z'' 3, Term = 1\<rparr>], LeaderCommit = 0\<rparr>"

definition exHeartbeat :: AppendEntriesArgs where
  "exHeartbeat = \<lparr>Term_ae = 1, LeaderId = 2, LastLogIndex = 0, LastLogTerm = 0,
                  Entries = [], LeaderCommit = 0\<rparr>"

definition exProbe :: AppendEntriesArgs where
  "exProbe = \<lparr>Term_ae = 3, LeaderId = 2, LastLogIndex = 3, LastLogTerm = 3,
              Entries = [], LeaderCommit = 1\<rparr>"

definition exVote :: RequestVoteArgs where
  "exVote = \<lparr>Term_rv = 2, CandidateId = 2, LastLogIndex_rv = 1, LastLogTerm_rv = 1\<rparr>"

definition exReplyOk :: AppendEntriesReply where
  "exReplyOk = \<lparr>Term_aer = 2, Success = True, RecoveryIndex = 0, RecoveryTerm = 0\<rparr>"

definition exReplyHint :: AppendEntriesReply where
  "exReplyHint = \<lparr>Term_aer = 2, Success = False, RecoveryIndex = 1, RecoveryTerm = 1\<rparr>"

definition exReplyJump :: AppendEntriesReply where
  "exReplyJump = \<lparr>Term_aer = 2, Success = False, RecoveryIndex = 3, RecoveryTerm = 0\<rparr>"

definition exLeaderAfter :: Node where
  "exLeaderAfter =
     exLeader\<lparr>nextIndex := (nextIndex exLeader)(2 \<mapsto> 4),
              matchedIndex := (matchedIndex exLeader)(2 \<mapsto> 3),
              commitLength := 3\<rparr>"


definition exStore :: Node where
  "exStore = exFollower\<lparr>db := [''k'' \<mapsto> [42]]\<rparr>"

definition exDead :: Node where
  "exDead = exStore\<lparr>state := Dead\<rparr>"

definition exTruncated :: Node where
  "exTruncated =
     \<lparr>node_id = 1, peerList = {|2, 3|}, db = Map.empty, currentTerm = 1, votedFor = - 1,
      log = [],
      logSpare = [\<lparr>Command = Write ''x'' 1, Term = 1\<rparr>, \<lparr>Command = Write ''y'' 2, Term = 1\<rparr>],
      growslice = (\<lambda>c m. 2 * m),
      commitLength = 2, lastApplied = 0, state = Follower, electionResetEvent = 0,
      nextIndex = Map.empty, matchedIndex = Map.empty\<rparr>"

definition exStaleVote :: RequestVoteArgs where
  "exStaleVote = \<lparr>Term_rv = 2, CandidateId = 2, LastLogIndex_rv = 0, LastLogTerm_rv = 1\<rparr>"

definition zeroAppendEntriesReply :: AppendEntriesReply where
  "zeroAppendEntriesReply = \<lparr>Term_aer = 0, Success = False, RecoveryIndex = 0, RecoveryTerm = 0\<rparr>"

definition zeroRequestVoteReply :: RequestVoteReply where
  "zeroRequestVoteReply = \<lparr>Term_rvr = 0, VoteGranted = False\<rparr>"


section \<open>Auxiliary facts\<close>

subsection \<open>Lengths as 64-bit words\<close>

lemma unat_len: "n < 2 ^ 63 \<Longrightarrow> unat (of_nat n :: u64) = n"
  by (simp add: unat_of_nat)

lemma le_len: "n < 2 ^ 63 \<Longrightarrow> (w \<le> (of_nat n :: u64)) = (unat w \<le> n)"
  by (simp add: word_le_nat_alt unat_len)

lemma less_len: "n < 2 ^ 63 \<Longrightarrow> ((of_nat n :: u64) < w) = (n < unat w)"
  by (simp add: word_less_nat_alt unat_len)

lemma of_nat_len_neq0: "0 < n \<Longrightarrow> n < 2 ^ 63 \<Longrightarrow> (of_nat n :: u64) \<noteq> 0"
  using unat_len [of n] by auto

lemma unat_pred: "w \<noteq> 0 \<Longrightarrow> unat (w - 1 :: u64) = unat w - 1"
  by (simp add: unat_minus_one)

lemma unat_succ: "w + 1 \<noteq> 0 \<Longrightarrow> unat (w + 1 :: u64) = Suc (unat w)"
  using unatSuc [of w] by (simp add: add.commute)

lemma less_succ_nonzero: "(w :: u64) < v \<Longrightarrow> w + 1 \<noteq> 0"
proof
  assume lt: "w < v" and z: "w + 1 = 0"
  from z have "w = - 1" by (simp add: eq_neg_iff_add_eq_0)
  with lt show False by simp
qed

subsection \<open>Finite sets of peers\<close>

lemma ffilter_fempty: "ffilter P {||} = {||}"
  by auto

lemma ffilter_finsert:
  "ffilter P (finsert x A) = (if P x then finsert x (ffilter P A) else ffilter P A)"
  by auto

subsection \<open>Fields that the role changes and persistence leave alone\<close>

lemma log_becomeFollower: "log (becomeFollower now t n) = log n"
  by (simp add: becomeFollower_def)

lemma log_persist: "log (persistToStorage g n) = log n"
  by (simp add: persistToStorage_def)

lemma lastLogIndexAndTerm_cases:
  "lastLogIndexAndTerm n =
     (if log n = [] then (0, 0) else (of_nat (length (log n) - 1), Term (last (log n))))"
  by (simp add: lastLogIndexAndTerm_def last_conv_nth)

subsection \<open>The backwards scans\<close>

lemma conflictScan_first_difference:
  "(\<exists>i. 1 \<le> i \<and> i \<le> k \<and> Term (lg ! (i - 1)) \<noteq> rt \<and>
        (\<forall>j. i < j \<and> j \<le> k \<longrightarrow> Term (lg ! (j - 1)) = rt) \<and>
        conflictScan lg rt k = of_nat i + 1) \<or>
   ((\<forall>i. 1 \<le> i \<and> i \<le> k \<longrightarrow> Term (lg ! (i - 1)) = rt) \<and> conflictScan lg rt k = 1)"
proof (induction k)
  case 0
  show ?case by simp
next
  case (Suc k)
  show ?case
  proof (cases "Term (lg ! k) = rt")
    case False
    then have "1 \<le> Suc k \<and> Suc k \<le> Suc k \<and> Term (lg ! (Suc k - 1)) \<noteq> rt \<and>
        (\<forall>j. Suc k < j \<and> j \<le> Suc k \<longrightarrow> Term (lg ! (j - 1)) = rt) \<and>
        conflictScan lg rt (Suc k) = of_nat (Suc k) + 1"
      by auto
    then show ?thesis by blast
  next
    case True
    then have unf: "conflictScan lg rt (Suc k) = conflictScan lg rt k" by simp
    have top: "\<And>j. j \<le> Suc k \<Longrightarrow> \<not> j \<le> k \<Longrightarrow> Term (lg ! (j - 1)) = rt"
      using True by (metis diff_Suc_1 le_SucE)
    from Suc.IH show ?thesis
    proof
      assume "\<exists>i. 1 \<le> i \<and> i \<le> k \<and> Term (lg ! (i - 1)) \<noteq> rt \<and>
        (\<forall>j. i < j \<and> j \<le> k \<longrightarrow> Term (lg ! (j - 1)) = rt) \<and>
        conflictScan lg rt k = of_nat i + 1"
      then obtain i where i: "1 \<le> i" "i \<le> k" "Term (lg ! (i - 1)) \<noteq> rt"
        "\<forall>j. i < j \<and> j \<le> k \<longrightarrow> Term (lg ! (j - 1)) = rt"
        "conflictScan lg rt k = of_nat i + 1" by blast
      have "\<forall>j. i < j \<and> j \<le> Suc k \<longrightarrow> Term (lg ! (j - 1)) = rt"
        using i(4) top by blast
      then have "1 \<le> i \<and> i \<le> Suc k \<and> Term (lg ! (i - 1)) \<noteq> rt \<and>
        (\<forall>j. i < j \<and> j \<le> Suc k \<longrightarrow> Term (lg ! (j - 1)) = rt) \<and>
        conflictScan lg rt (Suc k) = of_nat i + 1"
        using i unf by simp
      then show ?thesis by blast
    next
      assume a: "(\<forall>i. 1 \<le> i \<and> i \<le> k \<longrightarrow> Term (lg ! (i - 1)) = rt) \<and> conflictScan lg rt k = 1"
      then have "\<forall>i. 1 \<le> i \<and> i \<le> Suc k \<longrightarrow> Term (lg ! (i - 1)) = rt"
        using top by blast
      then show ?thesis using a unf by simp
    qed
  qed
qed

lemma lastIndexOfTerm_last_match:
  "(\<exists>i. 1 \<le> i \<and> i \<le> k \<and> Term (lg ! (i - 1)) = rt \<and>
        (\<forall>j. i < j \<and> j \<le> k \<longrightarrow> Term (lg ! (j - 1)) \<noteq> rt) \<and>
        lastIndexOfTerm lg rt k = of_nat i) \<or>
   ((\<forall>i. 1 \<le> i \<and> i \<le> k \<longrightarrow> Term (lg ! (i - 1)) \<noteq> rt) \<and> lastIndexOfTerm lg rt k = 0)"
proof (induction k)
  case 0
  show ?case by simp
next
  case (Suc k)
  show ?case
  proof (cases "Term (lg ! k) = rt")
    case True
    then have "1 \<le> Suc k \<and> Suc k \<le> Suc k \<and> Term (lg ! (Suc k - 1)) = rt \<and>
        (\<forall>j. Suc k < j \<and> j \<le> Suc k \<longrightarrow> Term (lg ! (j - 1)) \<noteq> rt) \<and>
        lastIndexOfTerm lg rt (Suc k) = of_nat (Suc k)"
      by auto
    then show ?thesis by blast
  next
    case False
    then have unf: "lastIndexOfTerm lg rt (Suc k) = lastIndexOfTerm lg rt k" by simp
    have top: "\<And>j. j \<le> Suc k \<Longrightarrow> \<not> j \<le> k \<Longrightarrow> Term (lg ! (j - 1)) \<noteq> rt"
      using False by (metis diff_Suc_1 le_SucE)
    from Suc.IH show ?thesis
    proof
      assume "\<exists>i. 1 \<le> i \<and> i \<le> k \<and> Term (lg ! (i - 1)) = rt \<and>
        (\<forall>j. i < j \<and> j \<le> k \<longrightarrow> Term (lg ! (j - 1)) \<noteq> rt) \<and>
        lastIndexOfTerm lg rt k = of_nat i"
      then obtain i where i: "1 \<le> i" "i \<le> k" "Term (lg ! (i - 1)) = rt"
        "\<forall>j. i < j \<and> j \<le> k \<longrightarrow> Term (lg ! (j - 1)) \<noteq> rt"
        "lastIndexOfTerm lg rt k = of_nat i" by blast
      have "\<forall>j. i < j \<and> j \<le> Suc k \<longrightarrow> Term (lg ! (j - 1)) \<noteq> rt"
        using i(4) top by blast
      then have "1 \<le> i \<and> i \<le> Suc k \<and> Term (lg ! (i - 1)) = rt \<and>
        (\<forall>j. i < j \<and> j \<le> Suc k \<longrightarrow> Term (lg ! (j - 1)) \<noteq> rt) \<and>
        lastIndexOfTerm lg rt (Suc k) = of_nat i"
        using i unf by simp
      then show ?thesis by blast
    next
      assume a: "(\<forall>i. 1 \<le> i \<and> i \<le> k \<longrightarrow> Term (lg ! (i - 1)) \<noteq> rt) \<and> lastIndexOfTerm lg rt k = 0"
      then have "\<forall>i. 1 \<le> i \<and> i \<le> Suc k \<longrightarrow> Term (lg ! (i - 1)) \<noteq> rt"
        using top by blast
      then show ?thesis using a unf by simp
    qed
  qed
qed

subsection \<open>The reply to a call that fails the consistency check\<close>

lemma AppendEntries_failed_check:
  assumes "state n \<noteq> Dead" and "LeaderId args |\<in>| peerList n"
    and "Term_ae args = currentTerm n" and "length (log n) < 2 ^ 63"
    and "\<not> (LastLogIndex args = 0 \<or>
            (unat (LastLogIndex args) \<le> length (log n) \<and>
             Term (log n ! (unat (LastLogIndex args) - 1)) = LastLogTerm args))"
  shows "RecoveryIndex (snd (AppendEntries g now n args reply)) =
           fst (conflictHints (log n) (LastLogIndex args))"
    and "RecoveryTerm (snd (AppendEntries g now n args reply)) =
           snd (conflictHints (log n) (LastLogIndex args))"
    and "\<not> Success (snd (AppendEntries g now n args reply))"
  using assms
  by (auto simp: AppendEntries_def appendAtTerm_def Let_def becomeFollower_def
      le_len unat_pred split: prod.splits if_splits)

subsection \<open>The commit loop\<close>

lemma raiseCommit_last_ok:
  "(\<exists>k. i \<le> k \<and> k \<le> len \<and> ok k \<and> (\<forall>j. k < j \<and> j \<le> len \<longrightarrow> \<not> ok j) \<and>
        raiseCommit ok len i c = of_nat k) \<or>
   ((\<forall>k. i \<le> k \<and> k \<le> len \<longrightarrow> \<not> ok k) \<and> raiseCommit ok len i c = c)"
proof (induction ok len i c rule: raiseCommit.induct)
  case (1 ok len i c)
  show ?case
  proof (cases "i \<le> len")
    case False
    then have "raiseCommit ok len i c = c" by (subst raiseCommit.simps) simp
    moreover have "\<forall>k. i \<le> k \<and> k \<le> len \<longrightarrow> \<not> ok k" using False by arith
    ultimately show ?thesis by blast
  next
    case True
    let ?c = "if ok i then of_nat i else c"
    have unf: "raiseCommit ok len i c = raiseCommit ok len (Suc i) ?c"
      using True by (subst raiseCommit.simps) simp
    from "1.IH" [OF True] show ?thesis
    proof
      assume "\<exists>k. Suc i \<le> k \<and> k \<le> len \<and> ok k \<and> (\<forall>j. k < j \<and> j \<le> len \<longrightarrow> \<not> ok j) \<and>
        raiseCommit ok len (Suc i) ?c = of_nat k"
      then obtain k where "Suc i \<le> k" "k \<le> len" "ok k" "\<forall>j. k < j \<and> j \<le> len \<longrightarrow> \<not> ok j"
        "raiseCommit ok len (Suc i) ?c = of_nat k" by blast
      then have "i \<le> k \<and> k \<le> len \<and> ok k \<and> (\<forall>j. k < j \<and> j \<le> len \<longrightarrow> \<not> ok j) \<and>
        raiseCommit ok len i c = of_nat k" using unf by simp
      then show ?thesis by blast
    next
      assume a: "(\<forall>k. Suc i \<le> k \<and> k \<le> len \<longrightarrow> \<not> ok k) \<and> raiseCommit ok len (Suc i) ?c = ?c"
      show ?thesis
      proof (cases "ok i")
        case True
        have "i \<le> i \<and> i \<le> len \<and> ok i \<and> (\<forall>j. i < j \<and> j \<le> len \<longrightarrow> \<not> ok j) \<and>
          raiseCommit ok len i c = of_nat i"
          using a True \<open>i \<le> len\<close> unf by (simp add: Suc_le_eq)
        then show ?thesis by blast
      next
        case False
        have "\<forall>k. i \<le> k \<and> k \<le> len \<longrightarrow> \<not> ok k"
          using a False by (metis Suc_leI le_neq_implies_less)
        moreover have "raiseCommit ok len i c = c" using a False unf by simp
        ultimately show ?thesis by blast
      qed
    qed
  qed
qed

subsection \<open>The records sent by the dispatcher\<close>

lemma length_deliver: "length (deliver la ct i es) = length es"
  by (induction es arbitrary: i) auto

lemma nth_deliver:
  "k < length es \<Longrightarrow>
   deliver la ct i es ! k =
     \<lparr>Command_c = Command (es ! k), Term_c = ct, Index_c = la + of_nat (i + k) + 1\<rparr>"
proof (induction es arbitrary: i k)
  case Nil
  then show ?case by simp
next
  case (Cons e es)
  show ?case
  proof (cases k)
    case 0
    then show ?thesis by simp
  next
    case (Suc m)
    with Cons.prems have "m < length es" by simp
    from Cons.IH [OF this, of "Suc i"] Suc show ?thesis by simp
  qed
qed

lemma nth_window: "a + k < b \<Longrightarrow> b \<le> length xs \<Longrightarrow> drop a (take b xs) ! k = xs ! (a + k)"
  by simp

lemma sendCommit_cells:
  assumes "lastApplied n < commitLength n"
    and "unat (commitLength n) \<le> length (log n) + length (logSpare n)"
  shows "\<exists>out. sendCommit n = Inr (n\<lparr>lastApplied := commitLength n\<rparr>, out) \<and>
           length out = unat (commitLength n) - unat (lastApplied n) \<and>
           (\<forall>k < length out.
              out ! k = \<lparr>Command_c = Command ((log n @ logSpare n) ! (unat (lastApplied n) + k)),
                         Term_c = currentTerm n,
                         Index_c = lastApplied n + of_nat (k + 1)\<rparr>)"
proof -
  let ?es = "drop (unat (lastApplied n)) (take (unat (commitLength n)) (log n @ logSpare n))"
  let ?out = "deliver (lastApplied n) (currentTerm n) 0 ?es"
  have len: "length ?es = unat (commitLength n) - unat (lastApplied n)"
    using assms(2) by simp
  have sc: "sendCommit n = Inr (n\<lparr>lastApplied := commitLength n\<rparr>, ?out)"
    using assms by (simp add: sendCommit_def)
  have "\<forall>k < length ?out.
              ?out ! k = \<lparr>Command_c = Command ((log n @ logSpare n) ! (unat (lastApplied n) + k)),
                         Term_c = currentTerm n,
                         Index_c = lastApplied n + of_nat (k + 1)\<rparr>"
  proof (intro allI impI)
    fix k assume "k < length ?out"
    then have k: "k < length ?es" by (simp add: length_deliver)
    then have "unat (lastApplied n) + k < unat (commitLength n)" using len by arith
    moreover have "unat (commitLength n) \<le> length (log n @ logSpare n)"
      using assms(2) by simp
    ultimately have "?es ! k = (log n @ logSpare n) ! (unat (lastApplied n) + k)"
      by (rule nth_window)
    then show "?out ! k =
        \<lparr>Command_c = Command ((log n @ logSpare n) ! (unat (lastApplied n) + k)),
         Term_c = currentTerm n, Index_c = lastApplied n + of_nat (k + 1)\<rparr>"
      using nth_deliver [OF k, of "lastApplied n" "currentTerm n" 0] by simp
  qed
  then show ?thesis using sc len by (simp add: length_deliver)
qed

lemma unat_offset:
  assumes "unat la + m < 2 ^ 64"
  shows "unat (la + of_nat m :: u64) = unat la + m"
proof -
  have m: "unat (of_nat m :: u64) = m" using assms by (simp add: unat_of_nat)
  have "unat la + unat (of_nat m :: u64) < 2 ^ LENGTH(64)" using assms m by simp
  then have "unat (la + of_nat m) = unat la + unat (of_nat m :: u64)"
    by (simp only: unat_add_lem)
  with m show ?thesis by simp
qed

lemma sendCommit_panics:
  "sendCommit n = Inl e \<longleftrightarrow>
     e = IndexOutOfRange \<and> lastApplied n < commitLength n \<and>
     length (log n) + length (logSpare n) < unat (commitLength n)"
  by (auto simp: sendCommit_def)

lemma sendCommit_records:
  assumes "sendCommit n = Inr (n', out)"
  shows "lastApplied n' = max (lastApplied n) (commitLength n) \<and>
         unat (lastApplied n') = unat (lastApplied n) + length out \<and>
         length out = unat (commitLength n) - unat (lastApplied n) \<and>
         (\<forall>k < length out.
            out ! k = \<lparr>Command_c = Command ((log n @ logSpare n) ! (unat (lastApplied n) + k)),
                       Term_c = currentTerm n,
                       Index_c = lastApplied n + of_nat (k + 1)\<rparr>)"
proof (cases "lastApplied n < commitLength n")
  case False
  with assms have r: "n' = n" "out = []" by (simp_all add: sendCommit_def)
  from False have "unat (commitLength n) \<le> unat (lastApplied n)"
    by (simp add: word_less_nat_alt)
  with False r show ?thesis by (simp add: max_def)
next
  case True
  with assms have cap: "unat (commitLength n) \<le> length (log n) + length (logSpare n)"
    by (auto simp: sendCommit_def split: if_splits)
  from sendCommit_cells [OF True cap] assms obtain
    r: "n' = n\<lparr>lastApplied := commitLength n\<rparr>"
      "length out = unat (commitLength n) - unat (lastApplied n)"
      "\<forall>k < length out.
         out ! k = \<lparr>Command_c = Command ((log n @ logSpare n) ! (unat (lastApplied n) + k)),
                    Term_c = currentTerm n, Index_c = lastApplied n + of_nat (k + 1)\<rparr>"
    by auto
  from True have lt: "unat (lastApplied n) < unat (commitLength n)"
    by (simp add: word_less_nat_alt)
  have "lastApplied n' = max (lastApplied n) (commitLength n)"
    using r(1) True by (simp add: max_def less_imp_le)
  moreover have "unat (lastApplied n') = unat (lastApplied n) + length out"
    using r(1,2) lt by simp
  ultimately show ?thesis using r(2,3) by blast
qed

lemma sendCommitRun_indices:
  "unat (fst (snd (sendCommitRun la ss))) = unat la + length (fst (sendCommitRun la ss)) \<and>
   (\<forall>k < length (fst (sendCommitRun la ss)).
      Index_c (fst (sendCommitRun la ss) ! k) = la + of_nat (k + 1))"
proof (induction ss arbitrary: la)
  case Nil
  show ?case by simp
next
  case (Cons s ss)
  let ?n = "s\<lparr>lastApplied := la\<rparr>"
  show ?case
  proof (cases "sendCommit ?n")
    case (Inl e)
    then show ?thesis by simp
  next
    case (Inr p)
    obtain n' out1 where p: "p = (n', out1)" by (cases p)
    have rec: "sendCommit ?n = Inr (n', out1)" using Inr p by simp
    note R = sendCommit_records [OF rec]
    have s1: "unat (lastApplied n') = unat la + length out1"
      "\<forall>k < length out1. Index_c (out1 ! k) = la + of_nat (k + 1)"
      using R [THEN conjunct2, THEN conjunct1]
        R [THEN conjunct2, THEN conjunct2, THEN conjunct2]
      by simp_all
    let ?rest = "fst (sendCommitRun (lastApplied n') ss)"
    let ?la' = "fst (snd (sendCommitRun (lastApplied n') ss))"
    from Cons.IH [of "lastApplied n'"]
    have s2: "unat ?la' = unat (lastApplied n') + length ?rest"
      "\<forall>k < length ?rest. Index_c (?rest ! k) = lastApplied n' + of_nat (k + 1)"
      by simp_all
    have run: "fst (sendCommitRun la (s # ss)) = out1 @ ?rest"
      "fst (snd (sendCommitRun la (s # ss))) = ?la'"
      using Inr p by (simp_all split: prod.splits)
    have tot: "unat ?la' = unat la + length (out1 @ ?rest)" using s1(1) s2(1) by simp
    have "(of_nat (unat (lastApplied n')) :: u64) = of_nat (unat la + length out1)"
      using s1(1) by simp
    then have la_n': "lastApplied n' = la + of_nat (length out1)"
      by simp
    have "\<forall>k < length (out1 @ ?rest). Index_c ((out1 @ ?rest) ! k) = la + of_nat (k + 1)"
    proof (intro allI impI)
      fix k assume k: "k < length (out1 @ ?rest)"
      show "Index_c ((out1 @ ?rest) ! k) = la + of_nat (k + 1)"
      proof (cases "k < length out1")
        case True
        then show ?thesis using s1(2) by (simp add: nth_append)
      next
        case False
        then have kr: "k - length out1 < length ?rest" using k by simp
        have "Index_c ((out1 @ ?rest) ! k) = lastApplied n' + of_nat (k - length out1 + 1)"
          using False s2(2) kr by (simp add: nth_append)
        also have "\<dots> = la + of_nat (length out1 + (k - length out1 + 1))"
          unfolding la_n' by simp
        also have "length out1 + (k - length out1 + 1) = k + 1" using False by simp
        finally show ?thesis .
      qed
    qed
    with tot show ?thesis unfolding run by blast
  qed
qed

lemma AppendEntries_leaves_cells:
  "log (fst (AppendEntries exGob 0 (exFollower\<lparr>lastApplied := 0\<rparr>) exHeartbeat
          zeroAppendEntriesReply)) = log exTruncated \<and>
   logSpare (fst (AppendEntries exGob 0 (exFollower\<lparr>lastApplied := 0\<rparr>) exHeartbeat
          zeroAppendEntriesReply)) = logSpare exTruncated \<and>
   commitLength (fst (AppendEntries exGob 0 (exFollower\<lparr>lastApplied := 0\<rparr>) exHeartbeat
          zeroAppendEntriesReply)) = commitLength exTruncated \<and>
   lastApplied (fst (AppendEntries exGob 0 (exFollower\<lparr>lastApplied := 0\<rparr>) exHeartbeat
          zeroAppendEntriesReply)) = lastApplied exTruncated"
  by (simp add: AppendEntries_def appendAtTerm_def exFollower_def exHeartbeat_def
      exTruncated_def Let_def persistToStorage_def spare_after_append_def)

subsection \<open>Operations that keep the order of lastApplied, commitLength and the log length\<close>

lemma sendCommit_keeps_order:
  assumes "lastApplied n \<le> commitLength n" and "unat (commitLength n) \<le> length (log n)"
  shows "\<exists>n' out. sendCommit n = Inr (n', out) \<and>
           lastApplied n' \<le> commitLength n' \<and> unat (commitLength n') \<le> length (log n') \<and>
           lastApplied n \<le> lastApplied n' \<and> commitLength n' = commitLength n"
  using assms by (simp add: sendCommit_def)

lemma raiseCommit_bounds:
  assumes "unat c < i" and "unat c \<le> len" and "len < 2 ^ 63"
  shows "c \<le> raiseCommit ok len i c \<and> unat (raiseCommit ok len i c) \<le> len"
  using raiseCommit_last_ok [of i len ok c]
proof (elim disjE exE conjE)
  fix k
  assume k: "i \<le> k" "k \<le> len" "raiseCommit ok len i c = of_nat k"
  have "unat (of_nat k :: u64) = k" using k(2) assms(3) by (simp add: unat_len)
  with k assms(1) show ?thesis by (simp add: word_le_nat_alt)
next
  assume "raiseCommit ok len i c = c"
  with assms(2) show ?thesis by simp
qed

lemma commit_succ:
  assumes "unat (c :: u64) \<le> len" and "len < 2 ^ 63"
  shows "c + 1 \<noteq> 0" and "unat (c + 1) = Suc (unat c)"
proof -
  show nz: "c + 1 \<noteq> 0"
  proof
    assume "c + 1 = 0"
    then have "c = - 1" by (simp add: eq_neg_iff_add_eq_0)
    then have "unat c = 2 ^ 64 - 1" by (simp add: unsigned_minus_1_eq_mask mask_eq_exp_minus_1)
    with assms show False by simp
  qed
  then show "unat (c + 1) = Suc (unat c)" by (rule unat_succ)
qed

lemma advanceCommit_keeps_order:
  assumes "lastApplied n \<le> commitLength n" and "unat (commitLength n) \<le> length (log n)"
    and "length (log n) < 2 ^ 63"
  shows "\<exists>n'. advanceCommit n = Inr n' \<and>
           lastApplied n' \<le> commitLength n' \<and> unat (commitLength n') \<le> length (log n') \<and>
           commitLength n \<le> commitLength n' \<and> lastApplied n' = lastApplied n"
proof -
  note s = commit_succ [OF assms(2,3)]
  have "unat (commitLength n) < unat (commitLength n + 1)" using s(2) by simp
  from raiseCommit_bounds [OF this assms(2,3), of "quorumAt n"] s(1) assms(1)
  show ?thesis by (auto simp: advanceCommit_def)
qed

lemma leaderSendAppendEntries_single_keeps_order:
  assumes "lastApplied n \<le> commitLength n" and "unat (commitLength n) \<le> length (log n)"
    and "length (log n) < 2 ^ 63"
  shows "lastApplied (leaderSendAppendEntries_single n) \<le> commitLength (leaderSendAppendEntries_single n) \<and>
         unat (commitLength (leaderSendAppendEntries_single n)) \<le> length (log (leaderSendAppendEntries_single n)) \<and>
         commitLength n \<le> commitLength (leaderSendAppendEntries_single n) \<and>
         lastApplied (leaderSendAppendEntries_single n) = lastApplied n"
proof -
  note s = commit_succ [OF assms(2,3)]
  have "unat (commitLength n) < unat (commitLength n + 1)" using s(2) by simp
  from raiseCommit_bounds [OF this assms(2,3), of "\<lambda>i. Term (log n ! (i - 1)) = currentTerm n"]
    assms
  show ?thesis by (auto simp: leaderSendAppendEntries_single_def)
qed

lemma becomeFollower_keeps:
  "commitLength (becomeFollower now t n) = commitLength n"
  "lastApplied (becomeFollower now t n) = lastApplied n"
  by (simp_all add: becomeFollower_def)

lemma persistToStorage_keeps:
  "commitLength (persistToStorage g n) = commitLength n"
  "lastApplied (persistToStorage g n) = lastApplied n"
  by (simp_all add: persistToStorage_def)

lemma appendAtTerm_log_commit:
  "(log (fst (appendAtTerm now n args reply)) = log n \<and>
    commitLength (fst (appendAtTerm now n args reply)) = commitLength n \<and>
    lastApplied (fst (appendAtTerm now n args reply)) = lastApplied n) \<or>
   ((LastLogIndex args = 0 \<or> LastLogIndex args \<le> of_nat (length (log n))) \<and>
    log (fst (appendAtTerm now n args reply)) =
      take (unat (LastLogIndex args)) (log n) @ Entries args \<and>
    commitLength (fst (appendAtTerm now n args reply)) =
      (if commitLength n < LeaderCommit args
       then min (LeaderCommit args)
              (of_nat (length (take (unat (LastLogIndex args)) (log n) @ Entries args)))
       else commitLength n) \<and>
    lastApplied (fst (appendAtTerm now n args reply)) = lastApplied n)"
  by (simp add: appendAtTerm_def Let_def log_becomeFollower becomeFollower_keeps
      split: prod.splits)

lemma AppendEntries_log_commit:
  "(log (fst (AppendEntries g now n args reply)) = log n \<and>
    commitLength (fst (AppendEntries g now n args reply)) = commitLength n \<and>
    lastApplied (fst (AppendEntries g now n args reply)) = lastApplied n) \<or>
   ((LastLogIndex args = 0 \<or> LastLogIndex args \<le> of_nat (length (log n))) \<and>
    log (fst (AppendEntries g now n args reply)) =
      take (unat (LastLogIndex args)) (log n) @ Entries args \<and>
    commitLength (fst (AppendEntries g now n args reply)) =
      (if commitLength n < LeaderCommit args
       then min (LeaderCommit args)
              (of_nat (length (take (unat (LastLogIndex args)) (log n) @ Entries args)))
       else commitLength n) \<and>
    lastApplied (fst (AppendEntries g now n args reply)) = lastApplied n)"
proof -
  define n1 where
    "n1 = (if currentTerm n < Term_ae args then becomeFollower now (Term_ae args) n else n)"
  have f: "log n1 = log n" "commitLength n1 = commitLength n" "lastApplied n1 = lastApplied n"
    by (simp_all add: n1_def log_becomeFollower becomeFollower_keeps)
  have unf: "fst (AppendEntries g now n args reply) =
      (if state n = Dead \<or> \<not> LeaderId args |\<in>| peerList n then n
       else if Term_ae args = currentTerm n1
         then persistToStorage g (fst (appendAtTerm now n1 args (reply\<lparr>Success := False\<rparr>)))
         else persistToStorage g n1)"
    unfolding n1_def by (simp add: AppendEntries_def Let_def split: prod.splits)
  show ?thesis
  proof (cases "\<not> (state n = Dead \<or> \<not> LeaderId args |\<in>| peerList n) \<and>
      Term_ae args = currentTerm n1")
    case False
    then have "log (fst (AppendEntries g now n args reply)) = log n \<and>
       commitLength (fst (AppendEntries g now n args reply)) = commitLength n \<and>
       lastApplied (fst (AppendEntries g now n args reply)) = lastApplied n"
      unfolding unf using f by (auto simp: log_persist persistToStorage_keeps)
    then show ?thesis by blast
  next
    case True
    then have "fst (AppendEntries g now n args reply) =
        persistToStorage g (fst (appendAtTerm now n1 args (reply\<lparr>Success := False\<rparr>)))"
      unfolding unf by simp
    then show ?thesis
      using appendAtTerm_log_commit [of now n1 args "reply\<lparr>Success := False\<rparr>"]
      unfolding f by (simp add: log_persist persistToStorage_keeps)
  qed
qed

lemma AppendEntries_keeps_order_without_truncation:
  assumes "lastApplied n \<le> commitLength n" and "unat (commitLength n) \<le> length (log n)"
    and "length (log n) < 2 ^ 63"
    and "unat (LastLogIndex args) + length (Entries args) < 2 ^ 63"
    and "unat (commitLength n) \<le> unat (LastLogIndex args) + length (Entries args)"
  shows "let n' = fst (AppendEntries g now n args reply) in
           lastApplied n' \<le> commitLength n' \<and> unat (commitLength n') \<le> length (log n') \<and>
           commitLength n \<le> commitLength n' \<and> lastApplied n' = lastApplied n"
  using AppendEntries_log_commit [of g now n args reply]
proof
  assume "log (fst (AppendEntries g now n args reply)) = log n \<and>
    commitLength (fst (AppendEntries g now n args reply)) = commitLength n \<and>
    lastApplied (fst (AppendEntries g now n args reply)) = lastApplied n"
  with assms(1,2) show ?thesis by (simp add: Let_def)
next
  let ?lg = "take (unat (LastLogIndex args)) (log n) @ Entries args"
  let ?c = "if commitLength n < LeaderCommit args
            then min (LeaderCommit args) (of_nat (length ?lg)) else commitLength n"
  assume b: "(LastLogIndex args = 0 \<or> LastLogIndex args \<le> of_nat (length (log n))) \<and>
      log (fst (AppendEntries g now n args reply)) = ?lg \<and>
      commitLength (fst (AppendEntries g now n args reply)) = ?c \<and>
      lastApplied (fst (AppendEntries g now n args reply)) = lastApplied n"
  then have ok: "LastLogIndex args = 0 \<or> LastLogIndex args \<le> of_nat (length (log n))"
    and r: "log (fst (AppendEntries g now n args reply)) = ?lg"
      "commitLength (fst (AppendEntries g now n args reply)) = ?c"
      "lastApplied (fst (AppendEntries g now n args reply)) = lastApplied n"
    by blast+
  have L: "unat (LastLogIndex args) \<le> length (log n)"
    using ok assms(3) by (auto simp: le_len)
  then have len: "length ?lg = unat (LastLogIndex args) + length (Entries args)" by simp
  have ul: "unat (of_nat (length ?lg) :: u64) = length ?lg"
    using assms(4) len by (simp only: unat_len)
  have c1: "commitLength n \<le> ?c"
    using assms(5) len ul by (auto simp: word_le_nat_alt word_less_nat_alt min_def)
  have c2: "unat ?c \<le> length ?lg"
    using assms(5) len ul by (auto simp: word_le_nat_alt word_less_nat_alt min_def)
  have c3: "lastApplied n \<le> ?c" using assms(1) c1 by (rule order_trans)
  from r c1 c2 c3 show ?thesis by (simp add: Let_def)
qed

section \<open>The AppendEntries handler\<close>

text \<open>
  Claim C1. For an AppendEntries call received by a node that is not Dead and whose peer set
  contains the sender, with \<open>args.Term\<close> equal to the node's \<open>currentTerm\<close>: the reply has
  \<open>Success\<close> exactly when \<open>args.LastLogIndex\<close> is \<open>0\<close>, or it is at most the length of the
  log and the entry at that 1-based index has term \<open>args.LastLogTerm\<close>; and on success the
  new log is the prefix of length \<open>args.LastLogIndex\<close> of the old one followed by
  \<open>args.Entries\<close>.
\<close>

theorem C1_AppendEntries_consistency_check:
  assumes "state n \<noteq> Dead" and "LeaderId args |\<in>| peerList n"
    and "Term_ae args = currentTerm n" and "length (log n) < 2 ^ 63"
  shows "(Success (snd (AppendEntries g now n args reply)) \<longleftrightarrow>
            LastLogIndex args = 0 \<or>
            (unat (LastLogIndex args) \<le> length (log n) \<and>
             Term (log n ! (unat (LastLogIndex args) - 1)) = LastLogTerm args)) \<and>
         (Success (snd (AppendEntries g now n args reply)) \<longrightarrow>
            log (fst (AppendEntries g now n args reply)) =
              take (unat (LastLogIndex args)) (log n) @ Entries args)"
proof (cases "LastLogIndex args = 0")
  case True
  with assms show ?thesis
    by (auto simp: AppendEntries_def appendAtTerm_def Let_def log_becomeFollower log_persist
        split: prod.splits if_splits)
next
  case False
  with assms show ?thesis
    by (auto simp: AppendEntries_def appendAtTerm_def Let_def log_becomeFollower log_persist
        le_len unat_pred split: prod.splits if_splits)
qed

theorem C1_witness:
  "state exFollower \<noteq> Dead \<and> LeaderId exAppend |\<in>| peerList exFollower \<and>
   Term_ae exAppend = currentTerm exFollower \<and> length (log exFollower) < 2 ^ 63 \<and>
   Success (snd (AppendEntries exGob 0 exFollower exAppend zeroAppendEntriesReply)) \<and>
   log (fst (AppendEntries exGob 0 exFollower exAppend zeroAppendEntriesReply)) =
     [\<lparr>Command = Write ''x'' 1, Term = 1\<rparr>, \<lparr>Command = Write ''z'' 3, Term = 1\<rparr>]"
proof -
  have h: "state exFollower \<noteq> Dead" "LeaderId exAppend |\<in>| peerList exFollower"
    "Term_ae exAppend = currentTerm exFollower" "length (log exFollower) < 2 ^ 63"
    by (simp_all add: exFollower_def exAppend_def)
  from C1_AppendEntries_consistency_check
         [OF h, where g = exGob and now = 0 and reply = zeroAppendEntriesReply]
  have "Success (snd (AppendEntries exGob 0 exFollower exAppend zeroAppendEntriesReply)) \<and>
        log (fst (AppendEntries exGob 0 exFollower exAppend zeroAppendEntriesReply)) =
          [\<lparr>Command = Write ''x'' 1, Term = 1\<rparr>, \<lparr>Command = Write ''z'' 3, Term = 1\<rparr>]"
    by (simp add: exFollower_def exAppend_def)
  with h show ?thesis by simp
qed

text \<open>
  Claim C4. For an AppendEntries call that fails the log-consistency check (equal terms, a
  live node that knows the sender): when \<open>args.LastLogIndex\<close> exceeds the length of the log,
  the reply carries \<open>RecoveryIndex = |log| + 1\<close> and \<open>RecoveryTerm = 0\<close>; otherwise
  \<open>RecoveryTerm\<close> is the term of the local entry at \<open>args.LastLogIndex\<close>, and
  \<open>RecoveryIndex\<close> is one plus the closest index below \<open>args.LastLogIndex\<close> whose term
  differs from \<open>RecoveryTerm\<close>, or \<open>1\<close> when there is no such index.
\<close>

theorem C4_AppendEntries_conflict_hints:
  assumes "state n \<noteq> Dead" and "LeaderId args |\<in>| peerList n"
    and "Term_ae args = currentTerm n" and "length (log n) < 2 ^ 63"
    and "\<not> (LastLogIndex args = 0 \<or>
            (unat (LastLogIndex args) \<le> length (log n) \<and>
             Term (log n ! (unat (LastLogIndex args) - 1)) = LastLogTerm args))"
  shows "let r = snd (AppendEntries g now n args reply); L = unat (LastLogIndex args) in
           \<not> Success r \<and>
           (length (log n) < L \<longrightarrow>
              RecoveryIndex r = of_nat (length (log n)) + 1 \<and> RecoveryTerm r = 0) \<and>
           (L \<le> length (log n) \<longrightarrow>
              RecoveryTerm r = Term (log n ! (L - 1)) \<and>
              ((\<exists>i. 1 \<le> i \<and> i < L \<and> Term (log n ! (i - 1)) \<noteq> RecoveryTerm r \<and>
                    (\<forall>j. i < j \<and> j < L \<longrightarrow> Term (log n ! (j - 1)) = RecoveryTerm r) \<and>
                    RecoveryIndex r = of_nat i + 1) \<or>
               ((\<forall>i. 1 \<le> i \<and> i < L \<longrightarrow> Term (log n ! (i - 1)) = RecoveryTerm r) \<and>
                RecoveryIndex r = 1)))"
proof -
  let ?r = "snd (AppendEntries g now n args reply)"
  let ?L = "unat (LastLogIndex args)"
  note R = AppendEntries_failed_check [OF assms, of g now reply]
  from assms(5) have nz: "LastLogIndex args \<noteq> 0" by blast
  have far: "length (log n) < ?L \<longrightarrow>
              RecoveryIndex ?r = of_nat (length (log n)) + 1 \<and> RecoveryTerm ?r = 0"
    using R(1,2) assms(4) by (simp add: conflictHints_def less_len)
  have near: "?L \<le> length (log n) \<longrightarrow>
              RecoveryTerm ?r = Term (log n ! (?L - 1)) \<and>
              ((\<exists>i. 1 \<le> i \<and> i < ?L \<and> Term (log n ! (i - 1)) \<noteq> RecoveryTerm ?r \<and>
                    (\<forall>j. i < j \<and> j < ?L \<longrightarrow> Term (log n ! (j - 1)) = RecoveryTerm ?r) \<and>
                    RecoveryIndex ?r = of_nat i + 1) \<or>
               ((\<forall>i. 1 \<le> i \<and> i < ?L \<longrightarrow> Term (log n ! (i - 1)) = RecoveryTerm ?r) \<and>
                RecoveryIndex ?r = 1))"
  proof
    assume le: "?L \<le> length (log n)"
    then have ch: "conflictHints (log n) (LastLogIndex args) =
        (conflictScan (log n) (Term (log n ! (?L - 1))) (?L - 1), Term (log n ! (?L - 1)))"
      using assms(4) nz by (simp add: conflictHints_def less_len unat_pred Let_def)
    have rt: "RecoveryTerm ?r = Term (log n ! (?L - 1))" using R(2) ch by simp
    have ri: "RecoveryIndex ?r = conflictScan (log n) (RecoveryTerm ?r) (?L - 1)"
      using R(1) ch rt by simp
    have pos: "0 < ?L" using nz by (simp add: unat_gt_0)
    have bnd: "\<And>i. (i \<le> ?L - 1) = (i < ?L)" using pos by arith
    show "RecoveryTerm ?r = Term (log n ! (?L - 1)) \<and>
              ((\<exists>i. 1 \<le> i \<and> i < ?L \<and> Term (log n ! (i - 1)) \<noteq> RecoveryTerm ?r \<and>
                    (\<forall>j. i < j \<and> j < ?L \<longrightarrow> Term (log n ! (j - 1)) = RecoveryTerm ?r) \<and>
                    RecoveryIndex ?r = of_nat i + 1) \<or>
               ((\<forall>i. 1 \<le> i \<and> i < ?L \<longrightarrow> Term (log n ! (i - 1)) = RecoveryTerm ?r) \<and>
                RecoveryIndex ?r = 1))"
      using rt conflictScan_first_difference [of "?L - 1" "log n" "RecoveryTerm ?r"]
      unfolding ri [symmetric] bnd by blast
  qed
  show ?thesis unfolding Let_def using R(3) far near by blast
qed

theorem C4_witness:
  "state exDiverged \<noteq> Dead \<and> LeaderId exProbe |\<in>| peerList exDiverged \<and>
   Term_ae exProbe = currentTerm exDiverged \<and> length (log exDiverged) < 2 ^ 63 \<and>
   \<not> (LastLogIndex exProbe = 0 \<or>
      (unat (LastLogIndex exProbe) \<le> length (log exDiverged) \<and>
       Term (log exDiverged ! (unat (LastLogIndex exProbe) - 1)) = LastLogTerm exProbe)) \<and>
   \<not> Success (snd (AppendEntries exGob 0 exDiverged exProbe zeroAppendEntriesReply)) \<and>
   RecoveryTerm (snd (AppendEntries exGob 0 exDiverged exProbe zeroAppendEntriesReply)) = 2 \<and>
   RecoveryIndex (snd (AppendEntries exGob 0 exDiverged exProbe zeroAppendEntriesReply)) = 2"
proof -
  let ?r = "snd (AppendEntries exGob 0 exDiverged exProbe zeroAppendEntriesReply)"
  have h: "state exDiverged \<noteq> Dead" "LeaderId exProbe |\<in>| peerList exDiverged"
    "Term_ae exProbe = currentTerm exDiverged" "length (log exDiverged) < 2 ^ 63"
    "\<not> (LastLogIndex exProbe = 0 \<or>
      (unat (LastLogIndex exProbe) \<le> length (log exDiverged) \<and>
       Term (log exDiverged ! (unat (LastLogIndex exProbe) - 1)) = LastLogTerm exProbe))"
    by (simp_all add: exDiverged_def exProbe_def)
  have L: "unat (LastLogIndex exProbe) = 3" "length (log exDiverged) = 3"
    by (simp_all add: exDiverged_def exProbe_def)
  have t: "Term (log exDiverged ! 0) = 1" "Term (log exDiverged ! 1) = 2"
    "Term (log exDiverged ! 2) = 2"
    by (simp_all add: exDiverged_def)
  have le: "unat (LastLogIndex exProbe) \<le> length (log exDiverged)" by (simp add: L)
  note th = C4_AppendEntries_conflict_hints
         [OF h, where g = exGob and now = 0 and reply = zeroAppendEntriesReply, unfolded Let_def]
  note fails = th [THEN conjunct1]
  note near = th [THEN conjunct2, THEN conjunct2, THEN mp, OF le, unfolded L]
  have rt: "RecoveryTerm ?r = 2" using near [THEN conjunct1] t by simp
  have "RecoveryIndex ?r = 2"
    using near [THEN conjunct2]
  proof (elim disjE exE conjE)
    fix i
    assume i: "1 \<le> i" "i < 3" "Term (log exDiverged ! (i - 1)) \<noteq> RecoveryTerm ?r"
      "RecoveryIndex ?r = of_nat i + 1"
    from i(1,2) have "i = 1 \<or> i = 2" by arith
    with i(3) t rt have "i = 1" by auto
    with i(4) show ?thesis by simp
  next
    assume "\<forall>i. 1 \<le> i \<and> i < 3 \<longrightarrow> Term (log exDiverged ! (i - 1)) = RecoveryTerm ?r"
    from this [THEN spec, of 1] have "Term (log exDiverged ! 0) = RecoveryTerm ?r" by simp
    with t rt show ?thesis by simp
  qed
  with h fails rt show ?thesis by blast
qed

section \<open>The RequestVote handler\<close>

text \<open>
  Claim C2. For a RequestVote call received by a node that is not Dead and whose peer set
  contains the candidate: the vote is granted exactly when \<open>args.Term\<close> equals the node's
  \<open>currentTerm\<close> after any step-down, \<open>votedFor\<close> is then the sentinel \<open>-1\<close> or the
  candidate, and the candidate's log is at least as up to date, that is \<open>args.LastLogTerm\<close>
  is greater than the local last log term, or equal to it with \<open>args.LastLogIndex\<close> at least
  the local last log index. The local last log term is the term of the last entry of the
  log, and the local last log index is the position of that entry as \<open>lastLogIndexAndTerm\<close>
  counts it, \<open>len(log) - 1\<close>; both are \<open>0\<close> for an empty log. (A candidate fills
  \<open>args.LastLogIndex\<close> with the same count.) On a grant \<open>votedFor\<close> becomes the candidate
  and \<open>electionResetEvent\<close> the current time.
\<close>

theorem C2_RequestVote_grant:
  assumes "state n \<noteq> Dead" and "CandidateId args |\<in>| peerList n"
  shows "let termNow = (if currentTerm n < Term_rv args then Term_rv args else currentTerm n);
             votedNow = (if currentTerm n < Term_rv args then - 1 else votedFor n);
             localLastTerm = (if log n = [] then 0 else Term (last (log n)));
             localLastIndex = (if log n = [] then 0 else of_nat (length (log n) - 1));
             n' = fst (RequestVote g now n args reply);
             r = snd (RequestVote g now n args reply)
         in currentTerm n' = termNow \<and> Term_rvr r = termNow \<and>
            (VoteGranted r \<longleftrightarrow>
               Term_rv args = termNow \<and>
               (votedNow = - 1 \<or> votedNow = CandidateId args) \<and>
               (localLastTerm < LastLogTerm_rv args \<or>
                (LastLogTerm_rv args = localLastTerm \<and> localLastIndex \<le> LastLogIndex_rv args))) \<and>
            (VoteGranted r \<longrightarrow> votedFor n' = CandidateId args \<and> electionResetEvent n' = now) \<and>
            (\<not> VoteGranted r \<longrightarrow> votedFor n' = votedNow)"
proof -
  have l: "lastLogIndexAndTerm n =
      (if log n = [] then 0 else of_nat (length (log n) - 1),
       if log n = [] then 0 else Term (last (log n)))"
    by (simp add: lastLogIndexAndTerm_cases)
  show ?thesis
    using assms
    by (auto simp: RequestVote_def Let_def l persistToStorage_def becomeFollower_def
        split: prod.splits)
qed

theorem C2_witness:
  "state exFollower \<noteq> Dead \<and> CandidateId exVote |\<in>| peerList exFollower \<and>
   CandidateId exStaleVote |\<in>| peerList exFollower \<and>
   currentTerm (fst (RequestVote exGob 7 exFollower exVote zeroRequestVoteReply)) = 2 \<and>
   VoteGranted (snd (RequestVote exGob 7 exFollower exVote zeroRequestVoteReply)) \<and>
   votedFor (fst (RequestVote exGob 7 exFollower exVote zeroRequestVoteReply)) = 2 \<and>
   electionResetEvent (fst (RequestVote exGob 7 exFollower exVote zeroRequestVoteReply)) = 7 \<and>
   \<not> VoteGranted (snd (RequestVote exGob 7 exFollower exStaleVote zeroRequestVoteReply)) \<and>
   votedFor (fst (RequestVote exGob 7 exFollower exStaleVote zeroRequestVoteReply)) = - 1"
proof -
  have h: "state exFollower \<noteq> Dead" "CandidateId exVote |\<in>| peerList exFollower"
    by (simp_all add: exFollower_def exVote_def)
  have hs: "CandidateId exStaleVote |\<in>| peerList exFollower"
    by (simp add: exFollower_def exStaleVote_def)
  from C2_RequestVote_grant [OF h, where g = exGob and now = 7 and reply = zeroRequestVoteReply]
  have a: "currentTerm (fst (RequestVote exGob 7 exFollower exVote zeroRequestVoteReply)) = 2 \<and>
   VoteGranted (snd (RequestVote exGob 7 exFollower exVote zeroRequestVoteReply)) \<and>
   votedFor (fst (RequestVote exGob 7 exFollower exVote zeroRequestVoteReply)) = 2 \<and>
   electionResetEvent (fst (RequestVote exGob 7 exFollower exVote zeroRequestVoteReply)) = 7"
    by (simp add: Let_def exFollower_def exVote_def)
  from C2_RequestVote_grant [OF h(1) hs, where g = exGob and now = 7
      and reply = zeroRequestVoteReply]
  have b: "\<not> VoteGranted (snd (RequestVote exGob 7 exFollower exStaleVote zeroRequestVoteReply)) \<and>
   votedFor (fst (RequestVote exGob 7 exFollower exStaleVote zeroRequestVoteReply)) = - 1"
    by (simp add: Let_def exFollower_def exStaleVote_def word_le_nat_alt)
  from h hs a b show ?thesis by simp
qed

section \<open>The leader's handling of AppendEntries replies\<close>

text \<open>
  Claim C5. When the leader processes an AppendEntries reply that carries its leadership
  term while it is still Leader: on success \<open>nextIndex[p]\<close> becomes the saved \<open>nextIndex\<close>
  plus the number of entries sent and \<open>matchedIndex[p]\<close> becomes \<open>nextIndex[p] - 1\<close>; on
  failure with \<open>RecoveryTerm = 0\<close>, \<open>nextIndex[p]\<close> becomes \<open>RecoveryIndex\<close>; on failure
  with \<open>RecoveryTerm \<noteq> 0\<close>, \<open>nextIndex[p]\<close> becomes one plus the last local index whose term
  is \<open>RecoveryTerm\<close> when there is one, and \<open>RecoveryIndex\<close> otherwise. (On success the
  commit loop runs next; it returns unless \<open>commitLength + 1\<close> overflows.)
\<close>

theorem C5_leader_reply_indices:
  assumes "state n = Leader" and "Term_aer reply = leadershipTerm"
    and "length (log n) < 2 ^ 63"
  shows "let res = leaderSendAppendEntries_reply now n peer leadershipTerm nextIndexSaved
                     entries reply;
             rt = RecoveryTerm reply
         in
           (Success reply \<and> commitLength n + 1 \<noteq> 0 \<longrightarrow>
              (\<exists>n'. res = Inr n' \<and>
                 nextIndex n' peer = Some (nextIndexSaved + of_nat (length entries)) \<and>
                 matchedIndex n' peer = Some (nextIndexSaved + of_nat (length entries) - 1))) \<and>
           (\<not> Success reply \<and> rt = 0 \<longrightarrow>
              (\<exists>n'. res = Inr n' \<and> nextIndex n' peer = Some (RecoveryIndex reply))) \<and>
           (\<not> Success reply \<and> rt \<noteq> 0 \<longrightarrow>
              (\<exists>n'. res = Inr n' \<and>
                 ((\<exists>i. 1 \<le> i \<and> i \<le> length (log n) \<and> Term (log n ! (i - 1)) = rt \<and>
                       (\<forall>j. i < j \<and> j \<le> length (log n) \<longrightarrow> Term (log n ! (j - 1)) \<noteq> rt) \<and>
                       nextIndex n' peer = Some (of_nat i + 1)) \<or>
                  ((\<forall>i. 1 \<le> i \<and> i \<le> length (log n) \<longrightarrow> Term (log n ! (i - 1)) \<noteq> rt) \<and>
                   nextIndex n' peer = Some (RecoveryIndex reply)))))"
proof -
  let ?res = "leaderSendAppendEntries_reply now n peer leadershipTerm nextIndexSaved entries reply"
  let ?rt = "RecoveryTerm reply"
  have ok: "Success reply \<and> commitLength n + 1 \<noteq> 0 \<longrightarrow>
              (\<exists>n'. ?res = Inr n' \<and>
                 nextIndex n' peer = Some (nextIndexSaved + of_nat (length entries)) \<and>
                 matchedIndex n' peer = Some (nextIndexSaved + of_nat (length entries) - 1))"
    using assms(1,2)
    by (simp add: leaderSendAppendEntries_reply_def advanceCommit_def Let_def lookup0_def)
  have hint0: "\<not> Success reply \<and> ?rt = 0 \<longrightarrow>
              (\<exists>n'. ?res = Inr n' \<and> nextIndex n' peer = Some (RecoveryIndex reply))"
    using assms(1,2) by (simp add: leaderSendAppendEntries_reply_def)
  have hint: "\<not> Success reply \<and> ?rt \<noteq> 0 \<longrightarrow>
              (\<exists>n'. ?res = Inr n' \<and>
                 ((\<exists>i. 1 \<le> i \<and> i \<le> length (log n) \<and> Term (log n ! (i - 1)) = ?rt \<and>
                       (\<forall>j. i < j \<and> j \<le> length (log n) \<longrightarrow> Term (log n ! (j - 1)) \<noteq> ?rt) \<and>
                       nextIndex n' peer = Some (of_nat i + 1)) \<or>
                  ((\<forall>i. 1 \<le> i \<and> i \<le> length (log n) \<longrightarrow> Term (log n ! (i - 1)) \<noteq> ?rt) \<and>
                   nextIndex n' peer = Some (RecoveryIndex reply))))"
  proof
    assume f: "\<not> Success reply \<and> ?rt \<noteq> 0"
    let ?l = "lastIndexOfTerm (log n) ?rt (length (log n))"
    have res: "?res = Inr (n\<lparr>nextIndex := (nextIndex n)(peer \<mapsto>
                 (if ?l = 0 then RecoveryIndex reply else ?l + 1))\<rparr>)"
      using assms(1,2) f by (simp add: leaderSendAppendEntries_reply_def Let_def)
    from lastIndexOfTerm_last_match [of "length (log n)" "log n" ?rt]
    show "\<exists>n'. ?res = Inr n' \<and>
                 ((\<exists>i. 1 \<le> i \<and> i \<le> length (log n) \<and> Term (log n ! (i - 1)) = ?rt \<and>
                       (\<forall>j. i < j \<and> j \<le> length (log n) \<longrightarrow> Term (log n ! (j - 1)) \<noteq> ?rt) \<and>
                       nextIndex n' peer = Some (of_nat i + 1)) \<or>
                  ((\<forall>i. 1 \<le> i \<and> i \<le> length (log n) \<longrightarrow> Term (log n ! (i - 1)) \<noteq> ?rt) \<and>
                   nextIndex n' peer = Some (RecoveryIndex reply)))"
    proof
      assume "\<exists>i. 1 \<le> i \<and> i \<le> length (log n) \<and> Term (log n ! (i - 1)) = ?rt \<and>
        (\<forall>j. i < j \<and> j \<le> length (log n) \<longrightarrow> Term (log n ! (j - 1)) \<noteq> ?rt) \<and> ?l = of_nat i"
      then obtain i where i: "1 \<le> i" "i \<le> length (log n)" "Term (log n ! (i - 1)) = ?rt"
        "\<forall>j. i < j \<and> j \<le> length (log n) \<longrightarrow> Term (log n ! (j - 1)) \<noteq> ?rt" "?l = of_nat i"
        by blast
      have "?l \<noteq> 0" using i(1,2,5) assms(3) of_nat_len_neq0 [of i] by simp
      then have "nextIndex (n\<lparr>nextIndex := (nextIndex n)(peer \<mapsto>
                 (if ?l = 0 then RecoveryIndex reply else ?l + 1))\<rparr>) peer = Some (of_nat i + 1)"
        using i(5) by simp
      with res i(1-4) show ?thesis by blast
    next
      assume a: "(\<forall>i. 1 \<le> i \<and> i \<le> length (log n) \<longrightarrow> Term (log n ! (i - 1)) \<noteq> ?rt) \<and> ?l = 0"
      then have "nextIndex (n\<lparr>nextIndex := (nextIndex n)(peer \<mapsto>
                 (if ?l = 0 then RecoveryIndex reply else ?l + 1))\<rparr>) peer = Some (RecoveryIndex reply)"
        by simp
      with res a show ?thesis by blast
    qed
  qed
  show ?thesis unfolding Let_def using ok hint0 hint by blast
qed

theorem C5_witness:
  "state exLeader = Leader \<and> Term_aer exReplyOk = 2 \<and> Term_aer exReplyJump = 2 \<and>
   Term_aer exReplyHint = 2 \<and> length (log exLeader) < 2 ^ 63 \<and>
   Success exReplyOk \<and> commitLength exLeader + 1 \<noteq> 0 \<and>
   (\<exists>n'. leaderSendAppendEntries_reply 0 exLeader 2 2 2
            [\<lparr>Command = Write ''y'' 2, Term = 2\<rparr>, \<lparr>Command = Write ''z'' 3, Term = 2\<rparr>]
            exReplyOk = Inr n' \<and>
          nextIndex n' 2 = Some 4 \<and> matchedIndex n' 2 = Some 3) \<and>
   \<not> Success exReplyJump \<and> RecoveryTerm exReplyJump = 0 \<and>
   (\<exists>n'. leaderSendAppendEntries_reply 0 exLeader 2 2 4 [] exReplyJump = Inr n' \<and>
          nextIndex n' 2 = Some 3) \<and>
   \<not> Success exReplyHint \<and> RecoveryTerm exReplyHint \<noteq> 0 \<and>
   (\<exists>n'. leaderSendAppendEntries_reply 0 exLeader 2 2 3 [] exReplyHint = Inr n' \<and>
          nextIndex n' 2 = Some 2)"
proof -
  have h: "state exLeader = Leader" "length (log exLeader) < 2 ^ 63"
    by (simp_all add: exLeader_def)
  have t: "Term_aer exReplyOk = 2" "Term_aer exReplyJump = 2" "Term_aer exReplyHint = 2"
    by (simp_all add: exReplyOk_def exReplyJump_def exReplyHint_def)
  have s1: "Success exReplyOk \<and> commitLength exLeader + 1 \<noteq> 0"
    by (simp add: exLeader_def exReplyOk_def)
  have s2: "\<not> Success exReplyJump \<and> RecoveryTerm exReplyJump = 0"
    by (simp add: exReplyJump_def)
  have s3: "\<not> Success exReplyHint \<and> RecoveryTerm exReplyHint \<noteq> 0"
    by (simp add: exReplyHint_def)
  note th1 = C5_leader_reply_indices [OF h(1) t(1) h(2), where now = 0 and peer = 2
      and nextIndexSaved = 2
      and entries = "[\<lparr>Command = Write ''y'' 2, Term = 2\<rparr>, \<lparr>Command = Write ''z'' 3, Term = 2\<rparr>]",
      unfolded Let_def]
  from th1 [THEN conjunct1, THEN mp, OF s1]
  have c1: "\<exists>n'. leaderSendAppendEntries_reply 0 exLeader 2 2 2
            [\<lparr>Command = Write ''y'' 2, Term = 2\<rparr>, \<lparr>Command = Write ''z'' 3, Term = 2\<rparr>]
            exReplyOk = Inr n' \<and>
          nextIndex n' 2 = Some 4 \<and> matchedIndex n' 2 = Some 3"
    by simp
  note th2 = C5_leader_reply_indices [OF h(1) t(2) h(2), where now = 0 and peer = 2
      and nextIndexSaved = 4 and entries = "[]", unfolded Let_def]
  from th2 [THEN conjunct2, THEN conjunct1, THEN mp, OF s2]
  have c2: "\<exists>n'. leaderSendAppendEntries_reply 0 exLeader 2 2 4 [] exReplyJump = Inr n' \<and>
          nextIndex n' 2 = Some 3"
    by (simp add: exReplyJump_def)
  note th3 = C5_leader_reply_indices [OF h(1) t(3) h(2), where now = 0 and peer = 2
      and nextIndexSaved = 3 and entries = "[]", unfolded Let_def]
  have lg: "length (log exLeader) = 3" "Term (log exLeader ! 0) = 1"
    "Term (log exLeader ! 1) = 2" "Term (log exLeader ! 2) = 2" "RecoveryTerm exReplyHint = 1"
    by (simp_all add: exLeader_def exReplyHint_def)
  from th3 [THEN conjunct2, THEN conjunct2, THEN mp, OF s3]
  obtain n' where r: "leaderSendAppendEntries_reply 0 exLeader 2 2 3 [] exReplyHint = Inr n'"
    and d: "(\<exists>i. 1 \<le> i \<and> i \<le> 3 \<and> Term (log exLeader ! (i - 1)) = 1 \<and>
               (\<forall>j. i < j \<and> j \<le> 3 \<longrightarrow> Term (log exLeader ! (j - 1)) \<noteq> 1) \<and>
               nextIndex n' 2 = Some (of_nat i + 1)) \<or>
            ((\<forall>i. 1 \<le> i \<and> i \<le> 3 \<longrightarrow> Term (log exLeader ! (i - 1)) \<noteq> 1) \<and>
             nextIndex n' 2 = Some (RecoveryIndex exReplyHint))"
    unfolding lg by blast
  from d have "nextIndex n' 2 = Some 2"
  proof (elim disjE exE conjE)
    fix i
    assume i: "1 \<le> i" "i \<le> 3" "Term (log exLeader ! (i - 1)) = 1"
      "nextIndex n' 2 = Some (of_nat i + 1)"
    from i(1,2) have "i = 1 \<or> i = 2 \<or> i = 3" by arith
    with i(3) lg have "i = 1" by auto
    with i(4) show ?thesis by simp
  next
    assume "\<forall>i. 1 \<le> i \<and> i \<le> 3 \<longrightarrow> Term (log exLeader ! (i - 1)) \<noteq> 1"
    from this [THEN spec, of 1] have "Term (log exLeader ! 0) \<noteq> 1" by simp
    with lg show ?thesis by simp
  qed
  with r have c3: "\<exists>n'. leaderSendAppendEntries_reply 0 exLeader 2 2 3 [] exReplyHint = Inr n' \<and>
          nextIndex n' 2 = Some 2" by blast
  from h t s1 s2 s3 c1 c2 c3 show ?thesis by blast
qed

section \<open>Commit advancement on the leader\<close>

text \<open>
  Claim C3. On the leader, after a successful AppendEntries reply, \<open>commitLength\<close> advances
  to an index \<open>i\<close> in \<open>(commitLength, |log|]\<close> only if the entry at \<open>i\<close> has term
  \<open>currentTerm\<close> and the count \<open>1 + |{p : matchedIndex[p] \<ge> i}|\<close> strictly exceeds half of
  \<open>peerSet.size + 1\<close>. In a cluster with no peers \<open>commitLength\<close> advances, with no count, to
  the last index up to \<open>|log|\<close> whose entry has the current term.
\<close>

theorem C3_commit_advancement:
  assumes "length (log n) < 2 ^ 63"
  shows "(state n = Leader \<and> Term_aer reply = leadershipTerm \<and> Success reply \<longrightarrow>
            (commitLength n + 1 \<noteq> 0 \<longrightarrow>
               (\<exists>n'. leaderSendAppendEntries_reply now n peer leadershipTerm nextIndexSaved
                        entries reply = Inr n')) \<and>
            (\<forall>n'. leaderSendAppendEntries_reply now n peer leadershipTerm nextIndexSaved
                     entries reply = Inr n' \<and> commitLength n' \<noteq> commitLength n \<longrightarrow>
                   commitLength n < commitLength n' \<and>
                   unat (commitLength n') \<le> length (log n') \<and>
                   Term (log n' ! (unat (commitLength n') - 1)) = currentTerm n' \<and>
                   (1 + fcard (ffilter (\<lambda>p. commitLength n' \<le> lookup0 (matchedIndex n') p)
                                 (peerList n'))) * 2 > fcard (peerList n') + 1)) \<and>
         (peerList n = {||} \<longrightarrow>
            (let n' = leaderSendAppendEntries_single n in
               (\<exists>i. unat (commitLength n) < i \<and> i \<le> length (log n) \<and>
                     Term (log n ! (i - 1)) = currentTerm n \<and>
                     (\<forall>j. i < j \<and> j \<le> length (log n) \<longrightarrow> Term (log n ! (j - 1)) \<noteq> currentTerm n) \<and>
                     commitLength n' = of_nat i) \<or>
               ((\<forall>i. unat (commitLength n) < i \<and> i \<le> length (log n) \<longrightarrow>
                      Term (log n ! (i - 1)) \<noteq> currentTerm n) \<and>
                commitLength n' = commitLength n)))"
proof -
  let ?res = "leaderSendAppendEntries_reply now n peer leadershipTerm nextIndexSaved entries reply"
  have reply: "state n = Leader \<and> Term_aer reply = leadershipTerm \<and> Success reply \<longrightarrow>
            (commitLength n + 1 \<noteq> 0 \<longrightarrow> (\<exists>n'. ?res = Inr n')) \<and>
            (\<forall>n'. ?res = Inr n' \<and> commitLength n' \<noteq> commitLength n \<longrightarrow>
                   commitLength n < commitLength n' \<and>
                   unat (commitLength n') \<le> length (log n') \<and>
                   Term (log n' ! (unat (commitLength n') - 1)) = currentTerm n' \<and>
                   (1 + fcard (ffilter (\<lambda>p. commitLength n' \<le> lookup0 (matchedIndex n') p)
                                 (peerList n'))) * 2 > fcard (peerList n') + 1)"
  proof (intro impI conjI allI)
    assume h: "state n = Leader \<and> Term_aer reply = leadershipTerm \<and> Success reply"
    assume "commitLength n + 1 \<noteq> 0"
    with h show "\<exists>n'. ?res = Inr n'"
      by (simp add: leaderSendAppendEntries_reply_def advanceCommit_def Let_def)
  next
    fix n'
    assume h: "state n = Leader \<and> Term_aer reply = leadershipTerm \<and> Success reply"
    assume r: "?res = Inr n' \<and> commitLength n' \<noteq> commitLength n"
    define n2 where "n2 = n\<lparr>nextIndex := (nextIndex n)(peer \<mapsto> nextIndexSaved + of_nat (length entries)),
         matchedIndex := (matchedIndex n)(peer \<mapsto> nextIndexSaved + of_nat (length entries) - 1)\<rparr>"
    have adv: "advanceCommit n2 = Inr n'"
      using h r by (simp add: leaderSendAppendEntries_reply_def Let_def lookup0_def n2_def)
    then have nw: "commitLength n + 1 \<noteq> 0"
      by (auto simp: advanceCommit_def n2_def split: if_splits)
    let ?c = "raiseCommit (quorumAt n2) (length (log n)) (unat (commitLength n + 1)) (commitLength n)"
    have n': "n' = n2\<lparr>commitLength := ?c\<rparr>"
      using adv nw by (simp add: advanceCommit_def n2_def)
    have cl: "commitLength n' = ?c" using n' by simp
    from raiseCommit_last_ok [of "unat (commitLength n + 1)" "length (log n)" "quorumAt n2"
        "commitLength n"] r cl
    obtain k where k: "unat (commitLength n + 1) \<le> k" "k \<le> length (log n)" "quorumAt n2 k"
      "?c = of_nat k" by auto
    have uk: "unat (commitLength n') = k" using k(2,4) cl assms unat_len [of k] by simp
    have "unat (commitLength n) < k" using k(1) nw by (simp add: unat_succ)
    then have lt: "commitLength n < commitLength n'" using uk by (simp add: word_less_nat_alt)
    have fields: "log n' = log n" "currentTerm n' = currentTerm n2" "peerList n' = peerList n2"
      "matchedIndex n' = matchedIndex n2" "log n2 = log n"
      using n' by (simp_all add: n2_def)
    have ck: "commitLength n' = of_nat k" using cl k(4) by simp
    show "commitLength n < commitLength n'" by (rule lt)
    show "unat (commitLength n') \<le> length (log n')" using uk k(2) fields by simp
    show "Term (log n' ! (unat (commitLength n') - 1)) = currentTerm n'"
      using k(3) uk fields by (simp add: quorumAt_def)
    show "(1 + fcard (ffilter (\<lambda>p. commitLength n' \<le> lookup0 (matchedIndex n') p)
                                 (peerList n'))) * 2 > fcard (peerList n') + 1"
      using k(3) fields ck by (simp add: quorumAt_def matchCount_def)
  qed
  have single: "peerList n = {||} \<longrightarrow>
            (let n' = leaderSendAppendEntries_single n in
               (\<exists>i. unat (commitLength n) < i \<and> i \<le> length (log n) \<and>
                     Term (log n ! (i - 1)) = currentTerm n \<and>
                     (\<forall>j. i < j \<and> j \<le> length (log n) \<longrightarrow> Term (log n ! (j - 1)) \<noteq> currentTerm n) \<and>
                     commitLength n' = of_nat i) \<or>
               ((\<forall>i. unat (commitLength n) < i \<and> i \<le> length (log n) \<longrightarrow>
                      Term (log n ! (i - 1)) \<noteq> currentTerm n) \<and>
                commitLength n' = commitLength n))"
  proof
    assume e: "peerList n = {||}"
    show "let n' = leaderSendAppendEntries_single n in
               (\<exists>i. unat (commitLength n) < i \<and> i \<le> length (log n) \<and>
                     Term (log n ! (i - 1)) = currentTerm n \<and>
                     (\<forall>j. i < j \<and> j \<le> length (log n) \<longrightarrow> Term (log n ! (j - 1)) \<noteq> currentTerm n) \<and>
                     commitLength n' = of_nat i) \<or>
               ((\<forall>i. unat (commitLength n) < i \<and> i \<le> length (log n) \<longrightarrow>
                      Term (log n ! (i - 1)) \<noteq> currentTerm n) \<and>
                commitLength n' = commitLength n)"
    proof (cases "commitLength n < of_nat (length (log n))")
      case False
      then have "\<not> unat (commitLength n) < length (log n)"
        using assms by (simp add: word_less_nat_alt unat_len)
      then have "\<forall>i. unat (commitLength n) < i \<and> i \<le> length (log n) \<longrightarrow>
                      Term (log n ! (i - 1)) \<noteq> currentTerm n" by arith
      moreover have "commitLength (leaderSendAppendEntries_single n) = commitLength n"
        using False by (simp add: leaderSendAppendEntries_single_def)
      ultimately show ?thesis unfolding Let_def by blast
    next
      case True
      then have "commitLength n + 1 \<noteq> 0"
        by (rule less_succ_nonzero)
      then have st: "unat (commitLength n + 1) = Suc (unat (commitLength n))" by (rule unat_succ)
      have cl: "commitLength (leaderSendAppendEntries_single n) =
         raiseCommit (\<lambda>i. Term (log n ! (i - 1)) = currentTerm n) (length (log n))
                 (Suc (unat (commitLength n))) (commitLength n)"
        using True e st by (simp add: leaderSendAppendEntries_single_def)
      show ?thesis unfolding Let_def cl
        using raiseCommit_last_ok [of "Suc (unat (commitLength n))" "length (log n)"
           "\<lambda>i. Term (log n ! (i - 1)) = currentTerm n" "commitLength n"]
        by (simp add: Suc_le_eq)
    qed
  qed
  show ?thesis using reply single by blast
qed

theorem C3_witness:
  "length (log exLeader) < 2 ^ 63 \<and> state exLeader = Leader \<and> Term_aer exReplyOk = 2 \<and>
   Success exReplyOk \<and> commitLength exLeader + 1 \<noteq> 0 \<and>
   leaderSendAppendEntries_reply 0 exLeader 2 2 2
     [\<lparr>Command = Write ''y'' 2, Term = 2\<rparr>, \<lparr>Command = Write ''z'' 3, Term = 2\<rparr>]
     exReplyOk = Inr exLeaderAfter \<and>
   commitLength exLeader = 1 \<and> commitLength exLeaderAfter = 3 \<and>
   commitLength exLeader < commitLength exLeaderAfter \<and>
   unat (commitLength exLeaderAfter) \<le> length (log exLeaderAfter) \<and>
   Term (log exLeaderAfter ! (unat (commitLength exLeaderAfter) - 1)) = currentTerm exLeaderAfter \<and>
   (1 + fcard (ffilter (\<lambda>p. commitLength exLeaderAfter \<le> lookup0 (matchedIndex exLeaderAfter) p)
                 (peerList exLeaderAfter))) * 2 > fcard (peerList exLeaderAfter) + 1 \<and>
   length (log exSolo) < 2 ^ 63 \<and> peerList exSolo = {||} \<and> commitLength exSolo = 0 \<and>
   commitLength (leaderSendAppendEntries_single exSolo) = 2"
proof -
  let ?es = "[\<lparr>Command = Write ''y'' 2, Term = 2\<rparr>, \<lparr>Command = Write ''z'' 3, Term = 2\<rparr>]"
  have h: "length (log exLeader) < 2 ^ 63" by (simp add: exLeader_def)
  have a: "state exLeader = Leader \<and> Term_aer exReplyOk = 2 \<and> Success exReplyOk"
    by (simp add: exLeader_def exReplyOk_def)
  have nw: "commitLength exLeader + 1 \<noteq> 0" by (simp add: exLeader_def)
  have q2: "quorumAt (exLeader\<lparr>nextIndex := (nextIndex exLeader)(2 \<mapsto> 4),
                matchedIndex := (matchedIndex exLeader)(2 \<mapsto> 3)\<rparr>) 2"
    by (simp add: quorumAt_def matchCount_def exLeader_def lookup0_def fcard_finsert_if
        ffilter_finsert ffilter_fempty word_le_nat_alt)
  have q3: "quorumAt (exLeader\<lparr>nextIndex := (nextIndex exLeader)(2 \<mapsto> 4),
                matchedIndex := (matchedIndex exLeader)(2 \<mapsto> 3)\<rparr>) 3"
    by (simp add: quorumAt_def matchCount_def exLeader_def lookup0_def fcard_finsert_if
        ffilter_finsert ffilter_fempty word_le_nat_alt)
  have len: "length (log exLeader) = 3" "unat (commitLength exLeader + 1) = 2"
    by (simp_all add: exLeader_def)
  have run: "leaderSendAppendEntries_reply 0 exLeader 2 2 2 ?es exReplyOk = Inr exLeaderAfter"
    using a nw q2 q3
    by (simp add: leaderSendAppendEntries_reply_def advanceCommit_def Let_def lookup0_def
        exLeaderAfter_def len raiseCommit.simps [of _ 3])
  have c: "commitLength exLeader = 1" "commitLength exLeaderAfter = 3"
    by (simp_all add: exLeader_def exLeaderAfter_def)
  have adv: "leaderSendAppendEntries_reply 0 exLeader 2 2 2 ?es exReplyOk = Inr exLeaderAfter \<and>
             commitLength exLeaderAfter \<noteq> commitLength exLeader"
    using run c by simp
  note th = C3_commit_advancement [OF h, where now = 0 and peer = 2 and leadershipTerm = 2
      and nextIndexSaved = 2 and entries = ?es and reply = exReplyOk]
  note first = th [THEN conjunct1, THEN mp, OF a, THEN conjunct2, THEN spec, THEN mp, OF adv]
  have hs: "length (log exSolo) < 2 ^ 63" by (simp add: exSolo_def)
  have e: "peerList exSolo = {||}" by (simp add: exSolo_def)
  have lg: "length (log exSolo) = 2" "unat (commitLength exSolo) = 0" "currentTerm exSolo = 2"
    "Term (log exSolo ! 0) = 1" "Term (log exSolo ! 1) = 2"
    by (simp_all add: exSolo_def)
  have c0: "commitLength exSolo = 0" by (simp add: exSolo_def)
  note ths = C3_commit_advancement [OF hs, where now = 0 and peer = 2 and leadershipTerm = 2
      and nextIndexSaved = 2 and entries = ?es and reply = exReplyOk]
  note second = ths [THEN conjunct2, THEN mp, OF e, unfolded Let_def lg]
  from second have solo: "commitLength (leaderSendAppendEntries_single exSolo) = 2"
  proof (elim disjE exE conjE)
    fix i
    assume i: "0 < i" "i \<le> 2" "Term (log exSolo ! (i - 1)) = 2"
      "commitLength (leaderSendAppendEntries_single exSolo) = of_nat i"
    from i(1,2) have "i = 1 \<or> i = 2" by arith
    with i(3) lg have "i = 2" by auto
    with i(4) show ?thesis by simp
  next
    assume "\<forall>i. 0 < i \<and> i \<le> 2 \<longrightarrow> Term (log exSolo ! (i - 1)) \<noteq> 2"
    from this [THEN spec, of 2] have "Term (log exSolo ! 1) \<noteq> 2" by simp
    with lg show ?thesis by simp
  qed
  from h a nw run c first hs e c0 solo show ?thesis by blast
qed

section \<open>The commit dispatcher\<close>

text \<open>
  Claim C10. Every record the dispatcher sends on the commit channel carries \<open>Index\<close> equal
  to the 1-based position of the entry it was made from, and over the life of the
  dispatcher the indices are \<open>1, 2, 3, \<dots>\<close> in the order sent. Its \<open>Term\<close> is the node's
  \<open>currentTerm\<close> read when the batch was taken, not the term stored in the entry, and the
  two can differ: the node \<open>exStale\<close> delivers with term \<open>2\<close> an entry of term \<open>1\<close>.

  This is stated for every state of the node. An iteration panics exactly when it slices
  beyond the capacity of the log. In every other case record \<open>k\<close> of the batch is made from
  the cell at position \<open>lastApplied + k + 1\<close> of the log's backing array, which is the log
  entry at that position whenever the position is within the log; when \<open>commitLength\<close>
  exceeds the length of the log (lemma \<open>AppendEntries_leaves_cells\<close>) the cells beyond the
  length are delivered too, numbered by their positions in the same way.
\<close>

theorem C10_commit_records:
  "(sendCommit n = Inl e \<longleftrightarrow>
      e = IndexOutOfRange \<and> lastApplied n < commitLength n \<and>
      length (log n) + length (logSpare n) < unat (commitLength n)) \<and>
   (\<forall>n' out. sendCommit n = Inr (n', out) \<longrightarrow>
      lastApplied n' = max (lastApplied n) (commitLength n) \<and>
      length out = unat (commitLength n) - unat (lastApplied n) \<and>
      (\<forall>k < length out.
         unat (Index_c (out ! k)) = unat (lastApplied n) + k + 1 \<and>
         Term_c (out ! k) = currentTerm n \<and>
         Command_c (out ! k) = Command ((log n @ logSpare n) ! (unat (lastApplied n) + k)) \<and>
         (unat (lastApplied n) + k < length (log n) \<longrightarrow>
            Command_c (out ! k) = Command (log n ! (unat (lastApplied n) + k))))) \<and>
   (\<forall>k < length (fst (sendCommitRun 0 ss)).
      unat (Index_c (fst (sendCommitRun 0 ss) ! k)) = k + 1) \<and>
   sendCommit exStale =
     Inr (exStale\<lparr>lastApplied := 1\<rparr>,
          [\<lparr>Command_c = Write ''x'' 7, Term_c = 2, Index_c = 1\<rparr>]) \<and>
   Term (log exStale ! 0) = 1"
proof (intro conjI allI impI)
  show "sendCommit n = Inl e \<longleftrightarrow>
      e = IndexOutOfRange \<and> lastApplied n < commitLength n \<and>
      length (log n) + length (logSpare n) < unat (commitLength n)"
    by (rule sendCommit_panics)
next
  fix n' out
  assume r: "sendCommit n = Inr (n', out)"
  note R = sendCommit_records [OF r]
  show "lastApplied n' = max (lastApplied n) (commitLength n)" using R by blast
  show "length out = unat (commitLength n) - unat (lastApplied n)" using R by blast
  fix k
  assume k: "k < length out"
  from R k have rec: "out ! k =
      \<lparr>Command_c = Command ((log n @ logSpare n) ! (unat (lastApplied n) + k)),
       Term_c = currentTerm n, Index_c = lastApplied n + of_nat (k + 1)\<rparr>"
    by blast
  have "unat (lastApplied n') < 2 ^ 64" using unsigned_less [of "lastApplied n'"] by simp
  moreover from R have "unat (lastApplied n') = unat (lastApplied n) + length out" by blast
  ultimately have "unat (lastApplied n) + (k + 1) < 2 ^ 64" using k by arith
  then have "unat (lastApplied n + of_nat (k + 1)) = unat (lastApplied n) + (k + 1)"
    by (rule unat_offset)
  with rec show "unat (Index_c (out ! k)) = unat (lastApplied n) + k + 1" by simp
  from rec show "Term_c (out ! k) = currentTerm n" by simp
  from rec show c: "Command_c (out ! k) =
      Command ((log n @ logSpare n) ! (unat (lastApplied n) + k))"
    by simp
  assume "unat (lastApplied n) + k < length (log n)"
  with c show "Command_c (out ! k) = Command (log n ! (unat (lastApplied n) + k))"
    by (simp add: nth_append)
next
  fix k
  assume k: "k < length (fst (sendCommitRun 0 ss))"
  let ?out = "fst (sendCommitRun 0 ss)"
  let ?la = "fst (snd (sendCommitRun 0 ss))"
  note I = sendCommitRun_indices [of 0 ss]
  have "unat ?la < 2 ^ 64" using unsigned_less [of ?la] by simp
  moreover from I have "unat ?la = unat (0 :: u64) + length ?out" by blast
  ultimately have "unat (0 :: u64) + (k + 1) < 2 ^ 64" using k by simp
  then have "unat (0 + of_nat (k + 1) :: u64) = unat (0 :: u64) + (k + 1)"
    by (rule unat_offset)
  moreover from I k have "Index_c (?out ! k) = 0 + of_nat (k + 1)" by blast
  ultimately have "unat (Index_c (?out ! k)) = unat (0 :: u64) + (k + 1)" by (simp only:)
  then show "unat (Index_c (?out ! k)) = k + 1" by simp
next
  show "sendCommit exStale =
     Inr (exStale\<lparr>lastApplied := 1\<rparr>,
          [\<lparr>Command_c = Write ''x'' 7, Term_c = 2, Index_c = 1\<rparr>])"
    by (simp add: exStale_def sendCommit_def)
next
  show "Term (log exStale ! 0) = 1" by (simp add: exStale_def)
qed

theorem C10_witness:
  "sendCommit exTruncated =
     Inr (exTruncated\<lparr>lastApplied := 2\<rparr>,
          [\<lparr>Command_c = Write ''x'' 1, Term_c = 1, Index_c = 1\<rparr>,
           \<lparr>Command_c = Write ''y'' 2, Term_c = 1, Index_c = 2\<rparr>]) \<and>
   log exTruncated = [] \<and> lastApplied exTruncated = 0 \<and> commitLength exTruncated = 2 \<and>
   lastApplied (exTruncated\<lparr>lastApplied := 2\<rparr>) = 2 \<and>
   unat (Index_c ([\<lparr>Command_c = Write ''x'' 1, Term_c = 1, Index_c = 1\<rparr>,
                   \<lparr>Command_c = Write ''y'' 2, Term_c = 1, Index_c = 2\<rparr>] ! 1)) = 2 \<and>
   sendCommit (exTruncated\<lparr>logSpare := []\<rparr>) = Inl IndexOutOfRange \<and>
   length (fst (sendCommitRun 0 [exStale, exFollower])) = 2 \<and>
   unat (Index_c (fst (sendCommitRun 0 [exStale, exFollower]) ! 0)) = 1 \<and>
   unat (Index_c (fst (sendCommitRun 0 [exStale, exFollower]) ! 1)) = 2"
proof -
  let ?recs = "[\<lparr>Command_c = Write ''x'' 1, Term_c = 1, Index_c = 1\<rparr>,
                \<lparr>Command_c = Write ''y'' 2, Term_c = 1, Index_c = 2\<rparr>]"
  have e: "sendCommit exTruncated = Inr (exTruncated\<lparr>lastApplied := 2\<rparr>, ?recs)"
    by (simp add: exTruncated_def sendCommit_def)
  have f: "log exTruncated = []" "lastApplied exTruncated = 0" "commitLength exTruncated = 2"
    "unat (lastApplied exTruncated) = 0"
    by (simp_all add: exTruncated_def)
  note th = C10_commit_records [where n = exTruncated and ss = "[exStale, exFollower]"]
  note batch = th [THEN conjunct2, THEN conjunct1, THEN spec, THEN spec, THEN mp, OF e]
  have k1: "1 < length ?recs" by simp
  from batch [THEN conjunct2, THEN conjunct2, THEN spec, THEN mp, OF k1]
  have i2: "unat (Index_c (?recs ! 1)) = 2"
    unfolding f by simp
  from batch have la: "lastApplied (exTruncated\<lparr>lastApplied := 2\<rparr>) = 2"
    unfolding f by simp
  have p: "lastApplied (exTruncated\<lparr>logSpare := []\<rparr>)
             < commitLength (exTruncated\<lparr>logSpare := []\<rparr>) \<and>
           length (log (exTruncated\<lparr>logSpare := []\<rparr>))
             + length (logSpare (exTruncated\<lparr>logSpare := []\<rparr>))
             < unat (commitLength (exTruncated\<lparr>logSpare := []\<rparr>))"
    by (simp add: exTruncated_def)
  from C10_commit_records [where n = "exTruncated\<lparr>logSpare := []\<rparr>"
      and e = IndexOutOfRange, THEN conjunct1] p
  have panic: "sendCommit (exTruncated\<lparr>logSpare := []\<rparr>) = Inl IndexOutOfRange" by blast
  have len: "length (fst (sendCommitRun 0 [exStale, exFollower])) = 2"
    by (simp add: sendCommit_def exStale_def exFollower_def)
  note run = th [THEN conjunct2, THEN conjunct2, THEN conjunct1]
  have k0: "0 < length (fst (sendCommitRun 0 [exStale, exFollower]))" unfolding len by simp
  have k1': "1 < length (fst (sendCommitRun 0 [exStale, exFollower]))" unfolding len by simp
  from run [THEN spec, THEN mp, OF k0]
  have r0: "unat (Index_c (fst (sendCommitRun 0 [exStale, exFollower]) ! 0)) = 1"
    by (simp del: sendCommitRun.simps)
  from run [THEN spec, THEN mp, OF k1']
  have r1: "unat (Index_c (fst (sendCommitRun 0 [exStale, exFollower]) ! 1)) = 2"
    by (simp del: sendCommitRun.simps)
  from e f(1-3) la i2 panic len r0 r1 show ?thesis by blast
qed

section \<open>The order of lastApplied, commitLength and the log length\<close>

text \<open>
  Claim C7 says that after every operation \<open>0 \<le> lastApplied \<le> commitLength \<le> |log|\<close>.
  The dispatcher and the leader's commit loops keep the inequality and never lower either
  counter (lemmas \<open>sendCommit_keeps_order\<close>, \<open>advanceCommit_keeps_order\<close> and
  \<open>leaderSendAppendEntries_single_keeps_order\<close>), and so does \<open>AppendEntries\<close> when the
  log it leaves is not shorter than \<open>commitLength\<close>
  (\<open>AppendEntries_keeps_order_without_truncation\<close>). But \<open>AppendEntries\<close> truncates the
  log to \<open>args.LastLogIndex\<close> without looking at \<open>commitLength\<close>, where the source has
  the comment \<open>//check node.commitLength?\<close>: a
  follower with two committed entries that receives an empty AppendEntries with
  \<open>LastLogIndex = 0\<close> of the current term (a delayed first heartbeat of its leader) accepts
  it and is left with an empty log and \<open>commitLength = 2\<close>.
\<close>

theorem C7_AppendEntries_truncates_committed:
  "lastApplied exFollower \<le> commitLength exFollower \<and>
   unat (commitLength exFollower) \<le> length (log exFollower) \<and>
   Success (snd (AppendEntries exGob 0 exFollower exHeartbeat zeroAppendEntriesReply)) \<and>
   log (fst (AppendEntries exGob 0 exFollower exHeartbeat zeroAppendEntriesReply)) = [] \<and>
   commitLength (fst (AppendEntries exGob 0 exFollower exHeartbeat zeroAppendEntriesReply)) = 2"
  by (simp add: AppendEntries_def appendAtTerm_def exFollower_def exHeartbeat_def Let_def
      persistToStorage_def)

section \<open>Membership change and command submission\<close>




text \<open>
  Claim C9. A command submitted through \<open>newLogEntry\<close> at a node that is not Leader, when
  it is not a \<open>Read\<close>, makes the call return \<open>(false, nil, nil)\<close> and leaves every field of
  the node (its log, \<open>currentTerm\<close> and \<open>votedFor\<close> among them) as it was. A \<open>Read\<close> is
  answered from the local store whatever the role, and changes nothing: when the store has
  bytes under the key the call returns \<open>true\<close> with the value and the error of decoding
  them; when it has none the call returns \<open>true\<close>, the zero value and \<open>KeyNotFound\<close>.
\<close>

theorem C9_newLogEntry_not_leader:
  "(state n \<noteq> Leader \<and> (\<forall>key. command \<noteq> Read key) \<longrightarrow>
      newLogEntry g n command = (n, False, None, None)) \<and>
   newLogEntry g n (Read key) =
     (case db n key of
        Some stored \<Rightarrow> (n, True, Some (fst (decInt g stored)), snd (decInt g stored))
      | None \<Rightarrow> (n, True, Some 0, Some (KeyNotFound key)))"
  by (cases command)
    (auto simp: newLogEntry_def readFromStorage_def split: prod.splits option.splits)

theorem C9_witness:
  "state exStore \<noteq> Leader \<and>
   newLogEntry exGob exStore (Write ''k'' 1) = (exStore, False, None, None) \<and>
   db exStore ''k'' = Some [42] \<and>
   newLogEntry exGob exStore (Read ''k'') = (exStore, True, Some 42, None) \<and>
   db exStore ''j'' = None \<and>
   newLogEntry exGob exStore (Read ''j'') = (exStore, True, Some 0, Some (KeyNotFound ''j'')) \<and>
   state exDead = Dead \<and>
   newLogEntry exGob exDead (Read ''k'') = (exDead, True, Some 42, None)"
proof -
  have h: "state exStore \<noteq> Leader \<and> (\<forall>key. Write ''k'' 1 \<noteq> Read key)"
    by (simp add: exStore_def exFollower_def)
  have d: "db exStore ''k'' = Some [42]" "db exStore ''j'' = None" "db exDead ''k'' = Some [42]"
    "state exDead = Dead"
    by (simp_all add: exStore_def exDead_def)
  have g: "decInt exGob [42] = (42, None)" by (simp add: exGob_def)
  note w = C9_newLogEntry_not_leader
      [where n = exStore and g = exGob and command = "Write ''k'' 1", THEN conjunct1,
       THEN mp, OF h]
  have k: "newLogEntry exGob exStore (Read ''k'') = (exStore, True, Some 42, None)"
    using C9_newLogEntry_not_leader
      [where n = exStore and g = exGob and key = "''k''", THEN conjunct2]
    by (simp add: d g)
  have j: "newLogEntry exGob exStore (Read ''j'') =
      (exStore, True, Some 0, Some (KeyNotFound ''j''))"
    using C9_newLogEntry_not_leader
      [where n = exStore and g = exGob and key = "''j''", THEN conjunct2]
    by (simp add: d)
  have x: "newLogEntry exGob exDead (Read ''k'') = (exDead, True, Some 42, None)"
    using C9_newLogEntry_not_leader
      [where n = exDead and g = exGob and key = "''k''", THEN conjunct2]
    by (simp add: d g)
  from h w d k j x show ?thesis by simp
qed

section \<open>Terms and votes\<close>

text \<open>
  Claim C8 says that \<open>votedFor\<close> is the sentinel \<open>-1\<close> after every transition that
  increases \<open>currentTerm\<close>, starting an election included. \<open>startElection\<close> increments
  \<open>currentTerm\<close> and votes for the node itself: on \<open>exFollower\<close> (id \<open>1\<close>, term \<open>1\<close>) it
  leaves term \<open>2\<close> and \<open>votedFor = 1\<close>.
\<close>

theorem C8_counterexample:
  "currentTerm exFollower < currentTerm (startElection 0 exFollower) \<and>
   votedFor (startElection 0 exFollower) \<noteq> - 1"
  by (simp add: startElection_def exFollower_def)

text \<open>
  Claim C8, amended. Whenever \<open>currentTerm\<close> advances by a step-down on a higher term
  (\<open>becomeFollower\<close>), \<open>votedFor\<close> is reset to the sentinel \<open>-1\<close>: an AppendEntries handler
  or the leader's reply handling that raises the term ends with \<open>votedFor = -1\<close>, and a
  RequestVote handler that raises the term ends with \<open>votedFor = -1\<close> unless it grants its
  vote in the same call, when \<open>votedFor\<close> is the candidate. Starting an election increments
  \<open>currentTerm\<close> and sets \<open>votedFor\<close> to the node's own id.
\<close>

theorem C8_votedFor_on_term_change:
  "votedFor (becomeFollower now t n) = - 1 \<and> currentTerm (becomeFollower now t n) = t \<and>
   currentTerm (startElection now n) = currentTerm n + 1 \<and>
   votedFor (startElection now n) = node_id n \<and>
   (currentTerm n < currentTerm (fst (AppendEntries g now n aargs areply)) \<longrightarrow>
      votedFor (fst (AppendEntries g now n aargs areply)) = - 1) \<and>
   (currentTerm n < currentTerm (fst (RequestVote g now n vargs vreply)) \<longrightarrow>
      votedFor (fst (RequestVote g now n vargs vreply)) =
        (if VoteGranted (snd (RequestVote g now n vargs vreply)) then CandidateId vargs
         else - 1)) \<and>
   (\<forall>n'. leaderSendAppendEntries_reply now n peer leadershipTerm nextIndexSaved entries rreply
            = Inr n' \<and> currentTerm n < currentTerm n' \<longrightarrow> votedFor n' = - 1)"
proof (intro conjI impI allI)
  show "votedFor (becomeFollower now t n) = - 1" by (simp add: becomeFollower_def)
  show "currentTerm (becomeFollower now t n) = t" by (simp add: becomeFollower_def)
  show "currentTerm (startElection now n) = currentTerm n + 1" by (simp add: startElection_def)
  show "votedFor (startElection now n) = node_id n" by (simp add: startElection_def)
next
  assume "currentTerm n < currentTerm (fst (AppendEntries g now n aargs areply))"
  then show "votedFor (fst (AppendEntries g now n aargs areply)) = - 1"
    by (auto simp: AppendEntries_def appendAtTerm_def Let_def becomeFollower_def
        persistToStorage_def split: if_splits prod.splits)
next
  assume "currentTerm n < currentTerm (fst (RequestVote g now n vargs vreply))"
  then show "votedFor (fst (RequestVote g now n vargs vreply)) =
        (if VoteGranted (snd (RequestVote g now n vargs vreply)) then CandidateId vargs
         else - 1)"
    by (auto simp: RequestVote_def Let_def becomeFollower_def persistToStorage_def
        split: if_splits prod.splits)
next
  fix n'
  assume "leaderSendAppendEntries_reply now n peer leadershipTerm nextIndexSaved entries rreply
            = Inr n' \<and> currentTerm n < currentTerm n'"
  then show "votedFor n' = - 1"
    by (auto simp: leaderSendAppendEntries_reply_def advanceCommit_def Let_def
        becomeFollower_def split: if_splits)
qed

theorem C8_witness:
  "currentTerm exFollower < currentTerm (fst (AppendEntries exGob 0 exFollower exProbe
       zeroAppendEntriesReply)) \<and>
   votedFor (fst (AppendEntries exGob 0 exFollower exProbe zeroAppendEntriesReply)) = - 1 \<and>
   currentTerm exFollower < currentTerm (fst (RequestVote exGob 0 exFollower exVote
       zeroRequestVoteReply)) \<and>
   VoteGranted (snd (RequestVote exGob 0 exFollower exVote zeroRequestVoteReply)) \<and>
   votedFor (fst (RequestVote exGob 0 exFollower exVote zeroRequestVoteReply)) = 2"
proof -
  have a: "currentTerm exFollower < currentTerm (fst (AppendEntries exGob 0 exFollower exProbe
       zeroAppendEntriesReply))"
    by (simp add: AppendEntries_def appendAtTerm_def Let_def becomeFollower_def
        persistToStorage_def exFollower_def exProbe_def conflictHints_def
        split: prod.splits)
  have v: "currentTerm exFollower < currentTerm (fst (RequestVote exGob 0 exFollower exVote
       zeroRequestVoteReply))"
    "VoteGranted (snd (RequestVote exGob 0 exFollower exVote zeroRequestVoteReply))"
    "CandidateId exVote = 2"
    by (simp_all add: RequestVote_def Let_def becomeFollower_def persistToStorage_def
        exFollower_def exVote_def lastLogIndexAndTerm_def)
  note th = C8_votedFor_on_term_change [where n = exFollower and g = exGob and now = 0
      and aargs = exProbe and areply = zeroAppendEntriesReply
      and vargs = exVote and vreply = zeroRequestVoteReply]
  note ta = th [THEN conjunct2, THEN conjunct2, THEN conjunct2, THEN conjunct2,
      THEN conjunct1, THEN mp, OF a]
  note tv = th [THEN conjunct2, THEN conjunct2, THEN conjunct2, THEN conjunct2,
      THEN conjunct2, THEN conjunct1, THEN mp, OF v(1)]
  from tv v(2,3) have "votedFor (fst (RequestVote exGob 0 exFollower exVote
      zeroRequestVoteReply)) = 2" by simp
  with a ta v(1,2) show ?thesis by blast
qed

end
